theory Spec2Isabelle
  imports Main "HOL-Library.Multiset"
begin

section \<open>Errors and JSON values\<close>

text \<open>
  The program is one \<^verbatim>\<open>main\<close> function (src/main.go) that starts one producer
  goroutine, ten decoding goroutines and one goroutine that waits for them, and then
  collects the decoded hits itself.  Every error the program can meet is a value of
  the type below; a panic is recorded in the state together with the error it carries.
\<close>

datatype error =
    ClientError              \<comment> \<open>\<^verbatim>\<open>elastic.NewClient\<close> failed (line 30)\<close>
  | CountError               \<comment> \<open>\<^verbatim>\<open>client.Count(...).Do\<close> failed (line 41)\<close>
  | SourceError nat          \<comment> \<open>\<^verbatim>\<open>scroll.Do\<close> returned an error other than \<^verbatim>\<open>io.EOF\<close>\<close>
  | SyntaxError              \<comment> \<open>\<^verbatim>\<open>json.Unmarshal\<close>: the bytes are not JSON\<close>
  | UnmarshalTypeError string \<comment> \<open>\<^verbatim>\<open>json.Unmarshal\<close>: a JSON value of the named kind does not fit the Go type\<close>
  | Canceled                 \<comment> \<open>\<^verbatim>\<open>ctx.Err()\<close> of a cancelled context\<close>
  | NilDereference           \<comment> \<open>\<^verbatim>\<open>*hit.Source\<close> on a nil pointer (line 104)\<close>
  | SendOnClosed             \<comment> \<open>a send on a closed channel\<close>
  | WriteError               \<comment> \<open>\<^verbatim>\<open>ioutil.WriteFile\<close> failed (line 144)\<close>

text \<open>
  JSON documents are kept as syntax trees.  A number keeps its literal text; an object
  keeps its members in the order of the document, duplicates included.
\<close>

datatype jvalue =
    JNull
  | JBool bool
  | JNum string
  | JStr string
  | JArr "jvalue list"
  | JObj "(string \<times> jvalue) list"

text \<open>
  The payload of a search hit is a byte sequence (\<^verbatim>\<open>json.RawMessage\<close>).  The only thing
  the program does with it is to hand it to \<^verbatim>\<open>json.Unmarshal\<close>, whose scanner first
  checks the whole input: the bytes either are no JSON document, or they are one, and
  then the decoder only sees the document.
\<close>

datatype payload = NotJSON | JSON jvalue

subsection \<open>The structs of the program (lines 14 to 21)\<close>

record Source =
  Code :: string

text \<open>\<^verbatim>\<open>Hit\<close> embeds \<^verbatim>\<open>Source\<close> and adds the field \<^verbatim>\<open>ID\<close>, which has no JSON tag.\<close>

record Hit =
  Source :: Source
  ID :: string

text \<open>
  \<^verbatim>\<open>elastic.SearchHit\<close>, as far as the program reads it: the field \<^verbatim>\<open>Id\<close> (here \<open>Id_hit\<close>, since
  \<open>Id\<close> is the identity relation of HOL) and the field \<^verbatim>\<open>Source\<close>, a pointer to the raw
  payload (here \<open>RawSource\<close>, since \<open>Source\<close> is the field of \<^verbatim>\<open>Hit\<close>; \<open>None\<close> is the nil
  pointer).
\<close>

record SearchHit =
  Id_hit :: string
  RawSource :: "payload option"

subsection \<open>\<^verbatim>\<open>json.Unmarshal\<close> into a \<^verbatim>\<open>Source\<close> (line 104)\<close>

text \<open>
  \<^verbatim>\<open>encoding/json\<close> is the standard library of Go, not code of this repository; what
  follows is its documented behaviour for the one target type the program uses,
  \<^verbatim>\<open>struct { Code string `json:"code"` }\<close>:
  \<^item> bytes that are no JSON document give a syntax error;
  \<^item> the document \<^verbatim>\<open>null\<close> leaves the target as it is, without an error;
  \<^item> any other document that is not an object gives an \<^verbatim>\<open>UnmarshalTypeError\<close>;
  \<^item> the members of an object are visited in order; a key names the field when it is
    \<^verbatim>\<open>code\<close> up to the case of its ASCII letters; every other member is skipped;
  \<^item> for a member that names the field, a string is stored, \<^verbatim>\<open>null\<close> changes nothing,
    and any other value records an \<^verbatim>\<open>UnmarshalTypeError\<close> (the first one is kept) while
    the decoder goes on.
\<close>

definition lower_ascii :: "char \<Rightarrow> char" where
  "lower_ascii c =
     (if 65 \<le> (of_char c :: nat) \<and> (of_char c :: nat) \<le> 90
      then Char (digit0 c) (digit1 c) (digit2 c) (digit3 c) (digit4 c) True (digit6 c) (digit7 c)
      else c)"

definition names_code :: "string \<Rightarrow> bool" where
  "names_code k = (map lower_ascii k = ''code'')"

fun json_kind :: "jvalue \<Rightarrow> string" where
  "json_kind JNull = ''null''"
| "json_kind (JBool b) = ''bool''"
| "json_kind (JNum n) = ''number''"
| "json_kind (JStr s) = ''string''"
| "json_kind (JArr vs) = ''array''"
| "json_kind (JObj kvs) = ''object''"

text \<open>The decoder's state while it walks an object: the target and the saved error.\<close>

fun store_Code :: "jvalue \<Rightarrow> Source \<times> error option \<Rightarrow> Source \<times> error option" where
  "store_Code (JStr s) (p, saved) = (p\<lparr>Code := s\<rparr>, saved)"
| "store_Code JNull (p, saved) = (p, saved)"
| "store_Code v (p, saved) =
     (p, case saved of None \<Rightarrow> Some (UnmarshalTypeError (json_kind v)) | Some e \<Rightarrow> Some e)"

definition decode_member :: "string \<times> jvalue \<Rightarrow> Source \<times> error option \<Rightarrow> Source \<times> error option" where
  "decode_member kv st = (if names_code (fst kv) then store_Code (snd kv) st else st)"

text \<open>\<^verbatim>\<open>var p Source\<close>: the zero value of the struct.\<close>

definition zero_Source :: Source where
  "zero_Source = \<lparr>Code = ''''\<rparr>"

fun json_Unmarshal :: "payload \<Rightarrow> error + Source" where
  "json_Unmarshal NotJSON = Inl SyntaxError"
| "json_Unmarshal (JSON JNull) = Inr zero_Source"
| "json_Unmarshal (JSON (JObj kvs)) =
     (case fold decode_member kvs (zero_Source, None) of
        (p, None) \<Rightarrow> Inr p
      | (p, Some e) \<Rightarrow> Inl e)"
| "json_Unmarshal (JSON v) = Inl (UnmarshalTypeError (json_kind v))"

subsection \<open>\<^verbatim>\<open>json.Marshal\<close> of the collected hits (line 140)\<close>

text \<open>
  Again the library's documented behaviour, for the value the program marshals, a
  \<^verbatim>\<open>[]Hit\<close>: a nil slice is written as \<^verbatim>\<open>null\<close>, any other slice as an array; a struct is
  written as an object whose members follow the order of the fields, the fields of the
  embedded \<^verbatim>\<open>Source\<close> being promoted into the object of the \<^verbatim>\<open>Hit\<close>; a field is
  named by its JSON tag when it has one (\<^verbatim>\<open>code\<close>) and by its Go name otherwise (\<^verbatim>\<open>ID\<close>).
  Marshalling strings cannot fail, so the \<^verbatim>\<open>panic\<close> of line 142 has no transition.
\<close>

definition marshal_Source_members :: "Source \<Rightarrow> (string \<times> jvalue) list" where
  "marshal_Source_members p = [(''code'', JStr (Code p))]"

definition marshal_Hit :: "Hit \<Rightarrow> jvalue" where
  "marshal_Hit h = JObj (marshal_Source_members (Source h) @ [(''ID'', JStr (ID h))])"

text \<open>
  The slice \<^verbatim>\<open>data\<close> is declared by \<^verbatim>\<open>var data []Hit\<close> and so starts as nil; \<open>None\<close> is
  the nil slice, and \<^verbatim>\<open>append\<close> always returns a slice that is not nil.
\<close>

definition append_slice :: "Hit list option \<Rightarrow> Hit \<Rightarrow> Hit list option" where
  "append_slice d h = (case d of None \<Rightarrow> Some [h] | Some hs \<Rightarrow> Some (hs @ [h]))"

definition json_Marshal :: "Hit list option \<Rightarrow> jvalue" where
  "json_Marshal d = (case d of None \<Rightarrow> JNull | Some hs \<Rightarrow> JArr (map marshal_Hit hs))"

text \<open>The records a slice holds.\<close>

definition records :: "Hit list option \<Rightarrow> Hit list" where
  "records d = (case d of None \<Rightarrow> [] | Some hs \<Rightarrow> hs)"


section \<open>The pipeline\<close>

subsection \<open>The outside world\<close>

text \<open>
  The Elasticsearch client is an external library.  One run of the program sees it
  through three calls: \<^verbatim>\<open>elastic.NewClient\<close>, which may fail; the count request,
  which fails or reports a total; and the scroll service, whose \<^verbatim>\<open>Do\<close> returns a page of
  hits, \<^verbatim>\<open>io.EOF\<close> or another error each time it is called.  The answers of \<^verbatim>\<open>Do\<close> are
  given by the number of the call, so a source may go on for ever.
\<close>

datatype response = Page "SearchHit list" | EOF | Failure error

record env =
  NewClient :: "error option"
  Count :: "error + int"
  Scroll :: "nat \<Rightarrow> response"

subsection \<open>Control points and state\<close>

text \<open>The producer goroutine (lines 69 to 95).\<close>

datatype ppc =
    PFetch                  \<comment> \<open>about to call \<^verbatim>\<open>scroll.Do(ctx)\<close>\<close>
  | PSend "SearchHit list"  \<comment> \<open>in the loop of line 83, these hits still to be sent\<close>
  | PDone "error option"    \<comment> \<open>returned, with this result\<close>

text \<open>One decoding goroutine (lines 100 to 123).\<close>

datatype wpc =
    WRecv                   \<comment> \<open>waiting in \<^verbatim>\<open>range hits\<close>\<close>
  | WDecode SearchHit       \<comment> \<open>holds a hit, about to unmarshal it\<close>
  | WSend Hit               \<comment> \<open>about to send on \<^verbatim>\<open>ch\<close>\<close>
  | WIncr                   \<comment> \<open>about to call \<^verbatim>\<open>bar.Increment\<close>\<close>
  | WCheck                  \<comment> \<open>at the \<^verbatim>\<open>select\<close> of line 116\<close>
  | WDone "error option"    \<comment> \<open>returned, with this result\<close>

text \<open>The goroutine of lines 126 to 132.\<close>

datatype jpc =
    JWait                   \<comment> \<open>inside \<^verbatim>\<open>g.Wait()\<close>\<close>
  | JJoined "error option"  \<comment> \<open>\<^verbatim>\<open>g.Wait()\<close> has returned this\<close>
  | JDone                   \<comment> \<open>\<^verbatim>\<open>ch\<close> closed\<close>

text \<open>The main goroutine from line 136 on.\<close>

datatype mpc =
    MRange                  \<comment> \<open>in \<^verbatim>\<open>range ch\<close>\<close>
  | MWrite jvalue           \<comment> \<open>holds \<^verbatim>\<open>jsonData\<close>, about to call \<^verbatim>\<open>ioutil.WriteFile\<close>\<close>
  | MFinish                 \<comment> \<open>about to call \<^verbatim>\<open>bar.FinishPrint\<close>\<close>
  | MDone                   \<comment> \<open>\<^verbatim>\<open>main\<close> has returned\<close>

text \<open>
  The state of one run.  \<open>responses\<close>, \<open>failures\<close> and \<open>writes\<close> are logs of what
  happened at the boundary of the program: what \<^verbatim>\<open>scroll.Do\<close> returned, which errors the
  functions passed to \<^verbatim>\<open>g.Go\<close> returned, and what \<^verbatim>\<open>ioutil.WriteFile\<close> was given, each in
  order.  The channels \<^verbatim>\<open>hits\<close> and \<^verbatim>\<open>ch\<close> are unbuffered, so they hold nothing and
  all there is to know about them is whether they are closed.
\<close>

record state =
  total_bar :: int               \<comment> \<open>\<^verbatim>\<open>total\<close>, the size the progress bar was started with\<close>
  bar :: nat                     \<comment> \<open>calls of \<^verbatim>\<open>bar.Increment\<close>\<close>
  responses :: "response list"
  failures :: "error list"
  hits_closed :: bool
  ch_closed :: bool
  cancelled :: bool              \<comment> \<open>\<^verbatim>\<open>ctx.Done()\<close> is closed\<close>
  gerr :: "error option"         \<comment> \<open>the error the group keeps for \<^verbatim>\<open>Wait\<close>\<close>
  producer :: ppc
  workers :: "wpc list"
  waiter :: jpc
  mainpc :: mpc
  data :: "Hit list option"
  writes :: "jvalue list"
  panicked :: "error option"     \<comment> \<open>the process has died in a panic\<close>

text \<open>The number of decoding goroutines (line 99) and the program's start.\<close>

definition workerCount :: nat where
  "workerCount = 10"

definition spawned :: "nat \<Rightarrow> state" where
  "spawned n =
     \<lparr>total_bar = 0, bar = 0, responses = [], failures = [], hits_closed = False,
      ch_closed = False, cancelled = False, gerr = None, producer = PFetch,
      workers = replicate n WRecv, waiter = JWait, mainpc = MRange, data = None,
      writes = [], panicked = None\<rparr>"

text \<open>
  Lines 30 to 45 run before any goroutine exists: either call may end the process in a
  panic; otherwise the bar is started with the total and the goroutines are spawned.
\<close>

definition init :: "env \<Rightarrow> nat \<Rightarrow> state" where
  "init e n =
     (case NewClient e of
        Some err \<Rightarrow> (spawned n)\<lparr>panicked := Some err\<rparr>
      | None \<Rightarrow>
          (case Count e of
             Inl err \<Rightarrow> (spawned n)\<lparr>panicked := Some err\<rparr>
           | Inr t \<Rightarrow> (spawned n)\<lparr>total_bar := t\<rparr>))"

subsection \<open>The error group\<close>

text \<open>
  \<^verbatim>\<open>errgroup\<close> is a library as well; the comment of lines 66 and 67 states what the
  program relies on: the context is cancelled the first time a function passed to
  \<^verbatim>\<open>Go\<close> returns an error that is not nil, or the first time \<^verbatim>\<open>Wait\<close> returns; \<^verbatim>\<open>Wait\<close>
  returns the first such error.
\<close>

definition record_failure :: "error \<Rightarrow> state \<Rightarrow> state" where
  "record_failure x s =
     s\<lparr>failures := failures s @ [x],
       gerr := (case gerr s of None \<Rightarrow> Some x | Some first \<Rightarrow> Some first),
       cancelled := True\<rparr>"

definition go_return :: "error option \<Rightarrow> state \<Rightarrow> state" where
  "go_return r s = (case r of None \<Rightarrow> s | Some x \<Rightarrow> record_failure x s)"

text \<open>The producer returns: the deferred \<^verbatim>\<open>close(hits)\<close> of line 70 runs.\<close>

definition producer_return :: "error option \<Rightarrow> state \<Rightarrow> state" where
  "producer_return r s = go_return r (s\<lparr>producer := PDone r, hits_closed := True\<rparr>)"

definition worker_return :: "nat \<Rightarrow> error option \<Rightarrow> state \<Rightarrow> state" where
  "worker_return i r s = go_return r (s\<lparr>workers := (workers s)[i := WDone r]\<rparr>)"

fun is_PDone :: "ppc \<Rightarrow> bool" where
  "is_PDone (PDone r) = True"
| "is_PDone p = False"

fun is_WDone :: "wpc \<Rightarrow> bool" where
  "is_WDone (WDone r) = True"
| "is_WDone w = False"

definition all_returned :: "state \<Rightarrow> bool" where
  "all_returned s = (is_PDone (producer s) \<and> list_all is_WDone (workers s))"

subsection \<open>Steps\<close>

text \<open>
  A step is one action of one goroutine; a send on an unbuffered channel and the
  receive that takes it are one step.  The event names the goroutine that moves and,
  for \<^verbatim>\<open>ioutil.WriteFile\<close>, whether the file system accepted the write.
\<close>

datatype event =
    Fetch             \<comment> \<open>line 74: \<^verbatim>\<open>scroll.Do\<close> returns the source's next answer\<close>
  | FetchAborted      \<comment> \<open>line 74: \<^verbatim>\<open>scroll.Do\<close> gives up because \<^verbatim>\<open>ctx\<close> is done\<close>
  | Publish nat       \<comment> \<open>lines 85 and 101: the next hit goes to this worker\<close>
  | ProducerPoll      \<comment> \<open>lines 89 to 93, after the last hit of the page\<close>
  | HitsEnd nat       \<comment> \<open>line 101: the worker finds \<^verbatim>\<open>hits\<close> closed\<close>
  | Unmarshal nat     \<comment> \<open>lines 103 to 107\<close>
  | Emit nat          \<comment> \<open>lines 111 and 137, 138: the worker's hit goes to \<^verbatim>\<open>data\<close>\<close>
  | Increment nat     \<comment> \<open>line 113\<close>
  | WorkerPoll nat    \<comment> \<open>lines 116 to 120\<close>
  | WaitReturns       \<comment> \<open>line 128: \<^verbatim>\<open>g.Wait()\<close> returns\<close>
  | AfterWait         \<comment> \<open>lines 128 to 131: \<^verbatim>\<open>panic(err)\<close> or \<^verbatim>\<open>close(ch)\<close>\<close>
  | ChEnd             \<comment> \<open>lines 137 and 140: \<^verbatim>\<open>range ch\<close> ends, \<^verbatim>\<open>json.Marshal\<close>\<close>
  | WriteFile bool    \<comment> \<open>lines 144 to 147\<close>
  | FinishPrint       \<comment> \<open>line 150\<close>

definition at_worker :: "nat \<Rightarrow> wpc \<Rightarrow> state \<Rightarrow> bool" where
  "at_worker i w s = (i < length (workers s) \<and> workers s ! i = w)"

definition set_worker :: "nat \<Rightarrow> wpc \<Rightarrow> state \<Rightarrow> state" where
  "set_worker i w s = s\<lparr>workers := (workers s)[i := w]\<rparr>"

fun act :: "env \<Rightarrow> event \<Rightarrow> state \<Rightarrow> state option" where
  "act e Fetch s =
     (if producer s = PFetch then
        (let r = Scroll e (length (responses s)); s1 = s\<lparr>responses := responses s @ [r]\<rparr> in
         case r of
           Page hs \<Rightarrow> Some (s1\<lparr>producer := PSend hs\<rparr>)
         | EOF \<Rightarrow> Some (producer_return None s1)
         | Failure err \<Rightarrow> Some (producer_return (Some err) s1))
      else None)"
| "act e FetchAborted s =
     (if producer s = PFetch \<and> cancelled s then
        Some (producer_return (Some Canceled) (s\<lparr>responses := responses s @ [Failure Canceled]\<rparr>))
      else None)"
| "act e (Publish i) s =
     (case producer s of
        PSend (h # hs) \<Rightarrow>
          (if at_worker i WRecv s then Some (set_worker i (WDecode h) (s\<lparr>producer := PSend hs\<rparr>))
           else None)
      | _ \<Rightarrow> None)"
| "act e ProducerPoll s =
     (if producer s = PSend [] then
        (if cancelled s then Some (producer_return (Some Canceled) s)
         else Some (s\<lparr>producer := PFetch\<rparr>))
      else None)"
| "act e (HitsEnd i) s =
     (if at_worker i WRecv s \<and> hits_closed s then Some (worker_return i None s) else None)"
| "act e (Unmarshal i) s =
     (if i < length (workers s) then
        (case workers s ! i of
           WDecode h \<Rightarrow>
             (case RawSource h of
                None \<Rightarrow> Some (s\<lparr>panicked := Some NilDereference\<rparr>)
              | Some raw \<Rightarrow>
                  (case json_Unmarshal raw of
                     Inl err \<Rightarrow> Some (worker_return i (Some err) s)
                   | Inr p \<Rightarrow> Some (set_worker i (WSend \<lparr>Source = p, ID = Id_hit h\<rparr>) s)))
         | _ \<Rightarrow> None)
      else None)"
| "act e (Emit i) s =
     (if i < length (workers s) then
        (case workers s ! i of
           WSend x \<Rightarrow>
             (if ch_closed s then Some (s\<lparr>panicked := Some SendOnClosed\<rparr>)
              else if mainpc s = MRange
                then Some (set_worker i WIncr (s\<lparr>data := append_slice (data s) x\<rparr>))
              else None)
         | _ \<Rightarrow> None)
      else None)"
| "act e (Increment i) s =
     (if at_worker i WIncr s then Some (set_worker i WCheck (s\<lparr>bar := bar s + 1\<rparr>)) else None)"
| "act e (WorkerPoll i) s =
     (if at_worker i WCheck s then
        (if cancelled s then Some (worker_return i (Some Canceled) s)
         else Some (set_worker i WRecv s))
      else None)"
| "act e WaitReturns s =
     (if waiter s = JWait \<and> all_returned s
      then Some (s\<lparr>waiter := JJoined (gerr s), cancelled := True\<rparr>)
      else None)"
| "act e AfterWait s =
     (case waiter s of
        JJoined (Some err) \<Rightarrow> Some (s\<lparr>panicked := Some err\<rparr>)
      | JJoined None \<Rightarrow> Some (s\<lparr>ch_closed := True, waiter := JDone\<rparr>)
      | _ \<Rightarrow> None)"
| "act e ChEnd s =
     (if mainpc s = MRange \<and> ch_closed s
      then Some (s\<lparr>mainpc := MWrite (json_Marshal (data s))\<rparr>)
      else None)"
| "act e (WriteFile ok) s =
     (case mainpc s of
        MWrite j \<Rightarrow>
          (if ok then Some (s\<lparr>writes := writes s @ [j], mainpc := MFinish\<rparr>)
           else Some (s\<lparr>writes := writes s @ [j], panicked := Some WriteError\<rparr>))
      | _ \<Rightarrow> None)"
| "act e FinishPrint s =
     (if mainpc s = MFinish then Some (s\<lparr>mainpc := MDone\<rparr>) else None)"

text \<open>Nothing moves once the process has died in a panic.\<close>

definition exec :: "env \<Rightarrow> event \<Rightarrow> state \<Rightarrow> state option" where
  "exec e ev s = (if panicked s = None then act e ev s else None)"

definition step :: "env \<Rightarrow> state \<Rightarrow> state \<Rightarrow> bool" where
  "step e s s' = (\<exists>ev. exec e ev s = Some s')"

definition reachable :: "env \<Rightarrow> nat \<Rightarrow> state \<Rightarrow> bool" where
  "reachable e n s = (step e)\<^sup>*\<^sup>* (init e n) s"

text \<open>A schedule is a list of events; \<open>run\<close> follows it as far as it is enabled.\<close>

fun run :: "env \<Rightarrow> event list \<Rightarrow> state \<Rightarrow> state option" where
  "run e [] s = Some s"
| "run e (ev # evs) s = (case exec e ev s of None \<Rightarrow> None | Some s' \<Rightarrow> run e evs s')"

text \<open>
  A run has succeeded when \<^verbatim>\<open>main\<close> has returned; it is stuck when nothing can move
  although \<^verbatim>\<open>main\<close> has neither returned nor has the process died.
\<close>

definition succeeded :: "state \<Rightarrow> bool" where
  "succeeded s = (mainpc s = MDone \<and> panicked s = None)"

definition stuck :: "env \<Rightarrow> state \<Rightarrow> bool" where
  "stuck e s = (mainpc s \<noteq> MDone \<and> panicked s = None \<and> (\<forall>ev. exec e ev s = None))"

text \<open>The hits of all pages that \<^verbatim>\<open>scroll.Do\<close> has returned so far.\<close>

fun page_hits :: "response \<Rightarrow> SearchHit list" where
  "page_hits (Page hs) = hs"
| "page_hits r = []"

definition fetched :: "state \<Rightarrow> SearchHit list" where
  "fetched s = concat (map page_hits (responses s))"


subsection \<open>What the invariants speak about\<close>

text \<open>
  What a worker makes of a hit (lines 103 to 111): the nil pointer and the decoding
  error on the left, the \<^verbatim>\<open>Hit\<close> it sends on the right.
\<close>

definition decode_hit :: "SearchHit \<Rightarrow> error + Hit" where
  "decode_hit h =
     (case RawSource h of
        None \<Rightarrow> Inl NilDereference
      | Some raw \<Rightarrow>
          (case json_Unmarshal raw of
             Inl err \<Rightarrow> Inl err
           | Inr p \<Rightarrow> Inr \<lparr>Source = p, ID = Id_hit h\<rparr>))"

text \<open>The hits the producer still has to send, and what a worker holds.\<close>

fun pending :: "ppc \<Rightarrow> SearchHit list" where
  "pending (PSend hs) = hs"
| "pending p = []"

fun inflight :: "wpc \<Rightarrow> (error + Hit) multiset" where
  "inflight (WDecode h) = {#decode_hit h#}"
| "inflight (WSend x) = {#Inr x#}"
| "inflight w = {#}"

text \<open>Everything that is on its way or has arrived, as results of decoding.\<close>

definition in_pipeline :: "state \<Rightarrow> (error + Hit) multiset" where
  "in_pipeline s =
     image_mset decode_hit (mset (pending (producer s)))
     + sum_list (map inflight (workers s))
     + image_mset Inr (mset (records (data s)))"

fun is_Page :: "response \<Rightarrow> bool" where
  "is_Page (Page hs) = True"
| "is_Page r = False"


subsection \<open>Invariants\<close>

text \<open>
  The group keeps the first failure, and the context is done exactly when a function
  has failed or \<^verbatim>\<open>Wait\<close> has returned.
\<close>

definition inv_flag :: "state \<Rightarrow> bool" where
  "inv_flag s =
     (gerr s = (case failures s of [] \<Rightarrow> None | x # xs \<Rightarrow> Some x)
      \<and> (cancelled s \<longleftrightarrow> failures s \<noteq> [] \<or> waiter s \<noteq> JWait))"

text \<open>A function that returned an error has left it in the log.\<close>

fun clean_p :: "ppc \<Rightarrow> bool" where
  "clean_p (PDone (Some x)) = False"
| "clean_p p = True"

fun clean_w :: "wpc \<Rightarrow> bool" where
  "clean_w (WDone (Some x)) = False"
| "clean_w w = True"

definition inv_ret :: "state \<Rightarrow> bool" where
  "inv_ret s = (failures s = [] \<longrightarrow> clean_p (producer s) \<and> list_all clean_w (workers s))"

text \<open>\<^verbatim>\<open>hits\<close> is closed exactly when the producer has returned.\<close>

definition inv_prod :: "state \<Rightarrow> bool" where
  "inv_prod s = (hits_closed s \<longleftrightarrow> is_PDone (producer s))"

text \<open>The goroutine that waits, and the channel it closes.\<close>

definition inv_join :: "state \<Rightarrow> bool" where
  "inv_join s =
     ((waiter s \<noteq> JWait \<longrightarrow> all_returned s)
      \<and> (\<forall>r. waiter s = JJoined r \<longrightarrow> r = gerr s)
      \<and> (waiter s = JDone \<longrightarrow> gerr s = None)
      \<and> (ch_closed s \<longleftrightarrow> waiter s = JDone))"

text \<open>The main goroutine and the log of writes.\<close>

definition inv_main :: "state \<Rightarrow> bool" where
  "inv_main s =
     ((mainpc s \<noteq> MRange \<longrightarrow> ch_closed s)
      \<and> (mainpc s = MRange \<longrightarrow> writes s = [])
      \<and> (\<forall>j. mainpc s = MWrite j \<longrightarrow>
            j = json_Marshal (data s)
            \<and> (writes s = [] \<or> writes s = [j] \<and> panicked s \<noteq> None))
      \<and> (mainpc s = MFinish \<or> mainpc s = MDone \<longrightarrow> writes s = [json_Marshal (data s)]))"

text \<open>\<^verbatim>\<open>data\<close> is nil or holds a record.\<close>

definition inv_data :: "state \<Rightarrow> bool" where
  "inv_data s = (data s \<noteq> Some [])"

text \<open>
  The log of \<^verbatim>\<open>scroll.Do\<close>: every answer is the source's, but for a last one that the
  cancelled context may have cut short; only the last answer can be other than a page,
  and it decides what the producer returns.
\<close>

definition inv_resp :: "env \<Rightarrow> state \<Rightarrow> bool" where
  "inv_resp e s =
     ((\<forall>k < length (responses s).
          (is_Page (responses s ! k)
           \<or> is_PDone (producer s) \<and> Suc k = length (responses s))
          \<and> (responses s ! k = Scroll e k
               \<or> is_PDone (producer s) \<and> Suc k = length (responses s)
                  \<and> responses s ! k = Failure Canceled))
      \<and> (producer s = PFetch \<or> responses s \<noteq> [])
      \<and> (\<forall>r. producer s = PDone r \<longrightarrow>
            (case last (responses s) of
                  EOF \<Rightarrow> r = None
                | Failure x \<Rightarrow> r = Some x
                | Page hs \<Rightarrow> r = Some Canceled)))"

text \<open>
  Nothing is made up and, as long as no function has failed, nothing is lost: what is
  in the pipeline are the decoded hits of the pages fetched.
\<close>

definition inv_flow :: "state \<Rightarrow> bool" where
  "inv_flow s =
     (in_pipeline s \<subseteq># image_mset decode_hit (mset (fetched s))
      \<and> (failures s = [] \<longrightarrow> in_pipeline s = image_mset decode_hit (mset (fetched s))))"

text \<open>All of them, and the number of workers.\<close>

definition invs :: "env \<Rightarrow> nat \<Rightarrow> state \<Rightarrow> bool" where
  "invs e n s =
     (inv_flag s \<and> inv_ret s \<and> inv_prod s \<and> inv_join s \<and> inv_main s \<and> inv_data s
      \<and> inv_resp e s \<and> inv_flow s \<and> length (workers s) = n)"

subsection \<open>Vocabulary of the statements about decoding\<close>

fun is_JStr :: "jvalue \<Rightarrow> bool" where
  "is_JStr (JStr s) = True"
| "is_JStr v = False"

fun is_JObj :: "jvalue \<Rightarrow> bool" where
  "is_JObj (JObj kvs) = True"
| "is_JObj v = False"

text \<open>
  The values of the members of an object that name the field \<^verbatim>\<open>code\<close>; a document
  that is not an object has none.
\<close>

fun code_members :: "jvalue \<Rightarrow> jvalue list" where
  "code_members (JObj kvs) = map snd (filter (\<lambda>kv. names_code (fst kv)) kvs)"
| "code_members v = []"

subsection \<open>Some sources and schedules\<close>

text \<open>A hit whose document has no member \<^verbatim>\<open>code\<close>, and a worker that holds it.\<close>

definition hit_b :: SearchHit where
  "hit_b = \<lparr>Id_hit = ''b'', RawSource = Some (JSON (JObj [(''name'', JStr ''n''), (''n'', JNum ''1'')]))\<rparr>"

definition holding_b :: state where
  "holding_b = (spawned 1)\<lparr>workers := [WDecode hit_b]\<rparr>"

text \<open>A source without records.\<close>

definition env_none :: env where
  "env_none = \<lparr>NewClient = None, Count = Inr 0, Scroll = (\<lambda>k. EOF)\<rparr>"

text \<open>
  The schedule that lets the workers find \<^verbatim>\<open>hits\<close> closed one after the other and then
  runs the rest of the program, with a write that the file system accepts.
\<close>

definition finish_schedule :: "nat \<Rightarrow> event list" where
  "finish_schedule n =
     map HitsEnd [0..<n] @ [WaitReturns, AfterWait, ChEnd, WriteFile True, FinishPrint]"

text \<open>The run of the program on the source without records.\<close>

definition final_none :: "nat \<Rightarrow> state" where
  "final_none n = the (run env_none (Fetch # finish_schedule n) (init env_none n))"

text \<open>The same run, up to the return of \<^verbatim>\<open>g.Wait()\<close>.\<close>

definition joined_none :: state where
  "joined_none =
     the (run env_none (Fetch # map HitsEnd [0..<workerCount] @ [WaitReturns])
            (init env_none workerCount))"

text \<open>A source that counts five records and yields none.\<close>

definition env_miscount :: env where
  "env_miscount = \<lparr>NewClient = None, Count = Inr 5, Scroll = (\<lambda>k. EOF)\<rparr>"

definition final_miscount :: state where
  "final_miscount =
     the (run env_miscount (Fetch # finish_schedule workerCount) (init env_miscount workerCount))"

text \<open>A source with one page of one hit, and the run in which worker 0 decodes it.\<close>

definition hit_a :: SearchHit where
  "hit_a = \<lparr>Id_hit = ''a'', RawSource = Some (JSON (JObj [(''code'', JStr ''no_matching'')]))\<rparr>"

definition env_one :: env where
  "env_one =
     \<lparr>NewClient = None, Count = Inr 1, Scroll = (\<lambda>k. if k = 0 then Page [hit_a] else EOF)\<rparr>"

definition schedule_one :: "nat \<Rightarrow> event list" where
  "schedule_one n =
     [Fetch, Publish 0, Unmarshal 0, Emit 0, Increment 0, WorkerPoll 0, ProducerPoll, Fetch]
     @ finish_schedule n"

definition final_one :: "nat \<Rightarrow> state" where
  "final_one n = the (run env_one (schedule_one n) (init env_one n))"

text \<open>
  A source whose first page has eleven hits in which \<^verbatim>\<open>code\<close> has two values, so that
  the document holds an array where the struct expects a string, and the run in which
  each of the ten workers takes one hit and fails to decode it.
\<close>

definition hit_bad :: "char \<Rightarrow> SearchHit" where
  "hit_bad c =
     \<lparr>Id_hit = [CHR ''z'', c],
      RawSource = Some (JSON (JObj [(''code'', JArr [JStr ''no_matching'', JStr ''other''])]))\<rparr>"

definition env_bad :: env where
  "env_bad =
     \<lparr>NewClient = None, Count = Inr 11,
      Scroll = (\<lambda>k. if k = 0 then Page (map hit_bad ''0123456789a'') else EOF)\<rparr>"

definition schedule_bad :: "event list" where
  "schedule_bad = Fetch # concat (map (\<lambda>i. [Publish i, Unmarshal i]) [0..<workerCount])"

definition hung :: state where
  "hung = the (run env_bad schedule_bad (init env_bad workerCount))"

subsection \<open>The source as a whole\<close>

text \<open>
  The source ends at call \<open>k\<close> when that call is the first that does not return a page
  and it returns \<^verbatim>\<open>io.EOF\<close>; its hits are those of the pages before.
\<close>

definition ends_at :: "env \<Rightarrow> nat \<Rightarrow> bool" where
  "ends_at e k = (Scroll e k = EOF \<and> (\<forall>j < k. is_Page (Scroll e j)))"

definition source_hits :: "env \<Rightarrow> nat \<Rightarrow> SearchHit list" where
  "source_hits e k = concat (map (\<lambda>j. page_hits (Scroll e j)) [0..<k])"

section \<open>Runs and reachable states\<close>

lemma run_steps: "run e evs s = Some s' \<Longrightarrow> (step e)\<^sup>*\<^sup>* s s'"
proof (induction evs arbitrary: s)
  case Nil
  then show ?case by simp
next
  case (Cons ev evs)
  then obtain s1 where a: "exec e ev s = Some s1" and b: "run e evs s1 = Some s'"
    by (auto split: option.splits)
  have "step e s s1" using a by (auto simp: step_def)
  moreover have "(step e)\<^sup>*\<^sup>* s1 s'" using Cons.IH b by blast
  ultimately show ?case by simp
qed

lemma reachable_run: "run e evs (init e n) = Some s \<Longrightarrow> reachable e n s"
  by (simp add: reachable_def run_steps)

lemma reachable_invariant:
  assumes r: "reachable e n s"
    and base: "P (init e n)"
    and stp: "\<And>s ev s'. reachable e n s \<Longrightarrow> P s \<Longrightarrow> exec e ev s = Some s' \<Longrightarrow> P s'"
  shows "P s"
proof -
  have "(step e)\<^sup>*\<^sup>* (init e n) s" using r by (simp add: reachable_def)
  then show ?thesis
  proof (induction rule: rtranclp_induct)
    case base
    then show ?case by (rule assms(2))
  next
    case (step y z)
    then obtain ev where "exec e ev y = Some z" by (auto simp: step_def)
    moreover have "reachable e n y" using step.hyps(1) by (simp add: reachable_def)
    ultimately show ?case using step.IH stp by blast
  qed
qed

lemmas ret_defs =
  producer_return_def worker_return_def go_return_def record_failure_def
  set_worker_def at_worker_def

lemma init_simps:
  "workers (init e n) = replicate n WRecv"
  "failures (init e n) = []" "gerr (init e n) = None" "cancelled (init e n) = False"
  "waiter (init e n) = JWait" "producer (init e n) = PFetch" "mainpc (init e n) = MRange"
  "data (init e n) = None" "writes (init e n) = []" "responses (init e n) = []"
  "hits_closed (init e n) = False" "ch_closed (init e n) = False" "bar (init e n) = 0"
  by (auto simp: init_def spawned_def split: option.splits sum.splits)

lemma exec_alive: "exec e ev s = Some s' \<Longrightarrow> panicked s = None"
  by (simp add: exec_def split: if_splits)

text \<open>Every step is one of these; the cases follow the clauses of \<open>act\<close>.\<close>

lemma exec_cases [consumes 1, case_names fetch_page fetch_eof fetch_fail fetch_aborted publish
    producer_continue producer_cancelled hits_end unmarshal_nil unmarshal_fail unmarshal_ok
    emit_closed emit increment worker_continue worker_cancelled wait_returns after_wait_panic
    after_wait_close ch_end write_ok write_fail finish_print]:
  assumes "exec e ev s = Some s'"
  obtains
    hs where "producer s = PFetch" "Scroll e (length (responses s)) = Page hs"
      "s' = s\<lparr>responses := responses s @ [Page hs], producer := PSend hs\<rparr>"
  | "producer s = PFetch" "Scroll e (length (responses s)) = EOF"
      "s' = s\<lparr>responses := responses s @ [EOF], producer := PDone None, hits_closed := True\<rparr>"
  | x where "producer s = PFetch" "Scroll e (length (responses s)) = Failure x"
      "s' = record_failure x (s\<lparr>responses := responses s @ [Failure x],
              producer := PDone (Some x), hits_closed := True\<rparr>)"
  | "producer s = PFetch" "cancelled s"
      "s' = record_failure Canceled (s\<lparr>responses := responses s @ [Failure Canceled],
              producer := PDone (Some Canceled), hits_closed := True\<rparr>)"
  | i h hs where "producer s = PSend (h # hs)" "i < length (workers s)" "workers s ! i = WRecv"
      "s' = s\<lparr>producer := PSend hs, workers := (workers s)[i := WDecode h]\<rparr>"
  | "producer s = PSend []" "\<not> cancelled s" "s' = s\<lparr>producer := PFetch\<rparr>"
  | "producer s = PSend []" "cancelled s"
      "s' = record_failure Canceled (s\<lparr>producer := PDone (Some Canceled), hits_closed := True\<rparr>)"
  | i where "i < length (workers s)" "workers s ! i = WRecv" "hits_closed s"
      "s' = s\<lparr>workers := (workers s)[i := WDone None]\<rparr>"
  | i h where "i < length (workers s)" "workers s ! i = WDecode h" "RawSource h = None"
      "s' = s\<lparr>panicked := Some NilDereference\<rparr>"
  | i h raw x where "i < length (workers s)" "workers s ! i = WDecode h" "RawSource h = Some raw"
      "json_Unmarshal raw = Inl x"
      "s' = record_failure x (s\<lparr>workers := (workers s)[i := WDone (Some x)]\<rparr>)"
  | i h raw p where "i < length (workers s)" "workers s ! i = WDecode h" "RawSource h = Some raw"
      "json_Unmarshal raw = Inr p"
      "s' = s\<lparr>workers := (workers s)[i := WSend \<lparr>Source = p, ID = Id_hit h\<rparr>]\<rparr>"
  | i x where "i < length (workers s)" "workers s ! i = WSend x" "ch_closed s"
      "s' = s\<lparr>panicked := Some SendOnClosed\<rparr>"
  | i x where "i < length (workers s)" "workers s ! i = WSend x" "\<not> ch_closed s"
      "mainpc s = MRange"
      "s' = s\<lparr>data := append_slice (data s) x, workers := (workers s)[i := WIncr]\<rparr>"
  | i where "i < length (workers s)" "workers s ! i = WIncr"
      "s' = s\<lparr>bar := bar s + 1, workers := (workers s)[i := WCheck]\<rparr>"
  | i where "i < length (workers s)" "workers s ! i = WCheck" "\<not> cancelled s"
      "s' = s\<lparr>workers := (workers s)[i := WRecv]\<rparr>"
  | i where "i < length (workers s)" "workers s ! i = WCheck" "cancelled s"
      "s' = record_failure Canceled (s\<lparr>workers := (workers s)[i := WDone (Some Canceled)]\<rparr>)"
  | "waiter s = JWait" "all_returned s" "s' = s\<lparr>waiter := JJoined (gerr s), cancelled := True\<rparr>"
  | x where "waiter s = JJoined (Some x)" "s' = s\<lparr>panicked := Some x\<rparr>"
  | "waiter s = JJoined None" "s' = s\<lparr>ch_closed := True, waiter := JDone\<rparr>"
  | "mainpc s = MRange" "ch_closed s" "s' = s\<lparr>mainpc := MWrite (json_Marshal (data s))\<rparr>"
  | j where "mainpc s = MWrite j" "s' = s\<lparr>writes := writes s @ [j], mainpc := MFinish\<rparr>"
  | j where "mainpc s = MWrite j" "s' = s\<lparr>writes := writes s @ [j], panicked := Some WriteError\<rparr>"
  | "mainpc s = MFinish" "s' = s\<lparr>mainpc := MDone\<rparr>"
proof (cases ev)
  case Fetch
  then show ?thesis using assms that(1,2,3)
    by (auto simp: exec_def ret_defs Let_def split: if_splits response.splits)
next
  case FetchAborted
  then show ?thesis using assms that(4)
    by (auto simp: exec_def ret_defs split: if_splits)
next
  case (Publish i)
  then show ?thesis using assms that(5)
    by (auto simp: exec_def ret_defs split: if_splits ppc.splits list.splits)
next
  case ProducerPoll
  then show ?thesis using assms that(6,7)
    by (auto simp: exec_def ret_defs split: if_splits)
next
  case (HitsEnd i)
  then show ?thesis using assms that(8)
    by (auto simp: exec_def ret_defs split: if_splits)
next
  case (Unmarshal i)
  then show ?thesis using assms that(9,10,11)
    by (auto simp: exec_def ret_defs split: if_splits wpc.splits option.splits sum.splits)
next
  case (Emit i)
  then show ?thesis using assms that(12,13)
    by (auto simp: exec_def ret_defs split: if_splits wpc.splits)
next
  case (Increment i)
  then show ?thesis using assms that(14)
    by (auto simp: exec_def ret_defs split: if_splits)
next
  case (WorkerPoll i)
  then show ?thesis using assms that(15,16)
    by (auto simp: exec_def ret_defs split: if_splits)
next
  case WaitReturns
  then show ?thesis using assms that(17)
    by (auto simp: exec_def split: if_splits)
next
  case AfterWait
  then show ?thesis using assms that(18,19)
    by (auto simp: exec_def split: if_splits jpc.splits option.splits)
next
  case ChEnd
  then show ?thesis using assms that(20)
    by (auto simp: exec_def split: if_splits)
next
  case (WriteFile ok)
  then show ?thesis using assms that(21,22)
    by (auto simp: exec_def split: if_splits mpc.splits)
next
  case FinishPrint
  then show ?thesis using assms that(23)
    by (auto simp: exec_def split: if_splits)
qed


section \<open>The invariants hold\<close>

lemma list_all_update: "list_all P xs \<Longrightarrow> P x \<Longrightarrow> list_all P (xs[i := x])"
  by (induction xs arbitrary: i) (auto split: nat.splits)

lemma inv_flag_step: "inv_flag s \<Longrightarrow> exec e ev s = Some s' \<Longrightarrow> inv_flag s'"
  by (erule exec_cases) (auto simp: inv_flag_def record_failure_def split: list.splits option.splits)

lemma inv_ret_step: "inv_ret s \<Longrightarrow> exec e ev s = Some s' \<Longrightarrow> inv_ret s'"
  by (erule exec_cases) (auto simp: inv_ret_def record_failure_def list_all_update)

lemma inv_prod_step: "inv_prod s \<Longrightarrow> exec e ev s = Some s' \<Longrightarrow> inv_prod s'"
  by (erule exec_cases) (auto simp: inv_prod_def record_failure_def)

lemma inv_data_step: "inv_data s \<Longrightarrow> exec e ev s = Some s' \<Longrightarrow> inv_data s'"
  by (erule exec_cases) (auto simp: inv_data_def record_failure_def append_slice_def split: option.splits)

lemma inv_join_step: "inv_join s \<Longrightarrow> exec e ev s = Some s' \<Longrightarrow> inv_join s'"
  by (erule exec_cases) (auto simp: inv_join_def all_returned_def record_failure_def list_all_length)

lemma inv_main_step: "inv_main s \<Longrightarrow> exec e ev s = Some s' \<Longrightarrow> inv_main s'"
  by (frule exec_alive, erule exec_cases) (auto simp: inv_main_def record_failure_def)

lemma inv_resp_step:
  assumes i: "inv_resp e s" and x: "exec e ev s = Some s'"
  shows "inv_resp e s'"
  using x
proof (cases rule: exec_cases)
  case producer_cancelled
  have ne: "responses s \<noteq> []"
    using i producer_cancelled(1) by (auto simp: inv_resp_def)
  have pages: "\<forall>k<length (responses s). is_Page (responses s ! k)"
    using i producer_cancelled(1) by (auto simp: inv_resp_def)
  have "length (responses s) - 1 < length (responses s)"
    using ne by simp
  then have "is_Page (responses s ! (length (responses s) - 1))"
    using pages by blast
  then have "is_Page (last (responses s))"
    using ne by (simp add: last_conv_nth)
  then show ?thesis
    using i producer_cancelled
    by (auto simp: inv_resp_def record_failure_def split: response.splits)
qed (use i in \<open>auto simp: inv_resp_def record_failure_def nth_append less_Suc_eq
       split: response.splits\<close>)

lemma sum_inflight_update:
  "i < length ws \<Longrightarrow>
   sum_list (map inflight (ws[i := w])) + inflight (ws ! i) = sum_list (map inflight ws) + inflight w"
proof (induction ws arbitrary: i)
  case Nil
  then show ?case by simp
next
  case (Cons a ws)
  show ?case
  proof (cases i)
    case 0
    then show ?thesis by (simp add: ac_simps)
  next
    case (Suc j)
    then have "j < length ws" using Cons.prems by simp
    from Cons.IH[OF this] show ?thesis using Suc by (simp add: ac_simps)
  qed
qed

lemma pipeline_worker:
  assumes "i < length (workers s)"
    and "producer s' = producer s" "data s' = data s"
    and "workers s' = (workers s)[i := w]"
  shows "in_pipeline s' + inflight (workers s ! i) = in_pipeline s + inflight w"
  using sum_inflight_update[OF assms(1), of w] assms(2-)
  by (simp add: in_pipeline_def ac_simps)

lemma records_append [simp]: "records (append_slice d x) = records d @ [x]"
  by (simp add: records_def append_slice_def split: option.splits)

lemma inv_flow_step:
  assumes i: "inv_flow s" and x: "exec e ev s = Some s'"
  shows "inv_flow s'"
  using x
proof (cases rule: exec_cases)
  case (publish i h hs)
  have "in_pipeline (s\<lparr>workers := (workers s)[i := WDecode h]\<rparr>) + inflight (workers s ! i)
      = in_pipeline s + inflight (WDecode h)"
    using publish(2) by (intro pipeline_worker) simp_all
  then have "in_pipeline s' = in_pipeline s"
    using publish by (simp add: in_pipeline_def)
  then show ?thesis using i publish by (simp add: inv_flow_def fetched_def)
next
  case (unmarshal_fail i h raw x)
  have "in_pipeline s' + inflight (workers s ! i) = in_pipeline s + inflight (WDone (Some x))"
    using unmarshal_fail(1) by (intro pipeline_worker) (simp_all add: unmarshal_fail(5) record_failure_def)
  then have "in_pipeline s' \<subseteq># in_pipeline s"
    by (metis add.right_neutral inflight.simps(6) mset_subset_eq_add_left)
  then show ?thesis using i unmarshal_fail
    by (auto simp: inv_flow_def fetched_def record_failure_def)
next
  case (unmarshal_ok i h raw p)
  have "in_pipeline s' + inflight (workers s ! i)
      = in_pipeline s + inflight (WSend \<lparr>Source = p, ID = Id_hit h\<rparr>)"
    using unmarshal_ok(1) by (intro pipeline_worker) (simp_all add: unmarshal_ok(5))
  then have "in_pipeline s' = in_pipeline s"
    using unmarshal_ok by (simp add: decode_hit_def)
  then show ?thesis using i unmarshal_ok by (simp add: inv_flow_def fetched_def)
next
  case (emit i x)
  have "in_pipeline (s\<lparr>workers := (workers s)[i := WIncr]\<rparr>) + inflight (workers s ! i)
      = in_pipeline s + inflight WIncr"
    using emit(1) by (intro pipeline_worker) simp_all
  then have "in_pipeline s' = in_pipeline s"
    using emit by (simp add: in_pipeline_def)
  then show ?thesis using i emit by (simp add: inv_flow_def fetched_def)
next
  case (hits_end i)
  have "in_pipeline s' + inflight (workers s ! i) = in_pipeline s + inflight (WDone None)"
    using hits_end(1) by (intro pipeline_worker) (simp_all add: hits_end(4))
  then have "in_pipeline s' = in_pipeline s"
    using hits_end by simp
  then show ?thesis using i hits_end by (simp add: inv_flow_def fetched_def)
next
  case (increment i)
  have "in_pipeline s' + inflight (workers s ! i) = in_pipeline s + inflight WCheck"
    using increment(1) by (intro pipeline_worker) (simp_all add: increment(3))
  then have "in_pipeline s' = in_pipeline s"
    using increment by simp
  then show ?thesis using i increment by (simp add: inv_flow_def fetched_def)
next
  case (worker_continue i)
  have "in_pipeline s' + inflight (workers s ! i) = in_pipeline s + inflight WRecv"
    using worker_continue(1) by (intro pipeline_worker) (simp_all add: worker_continue(4))
  then have "in_pipeline s' = in_pipeline s"
    using worker_continue by simp
  then show ?thesis using i worker_continue by (simp add: inv_flow_def fetched_def)
next
  case (worker_cancelled i)
  have "in_pipeline s' + inflight (workers s ! i) = in_pipeline s + inflight (WDone (Some Canceled))"
    using worker_cancelled(1)
    by (intro pipeline_worker) (simp_all add: worker_cancelled(4) record_failure_def)
  then have "in_pipeline s' = in_pipeline s"
    using worker_cancelled by simp
  then show ?thesis using i worker_cancelled
    by (simp add: inv_flow_def fetched_def record_failure_def)
qed (use i in \<open>auto simp: inv_flow_def in_pipeline_def fetched_def record_failure_def\<close>)

lemma exec_length: "exec e ev s = Some s' \<Longrightarrow> length (workers s') = length (workers s)"
  by (erule exec_cases) (auto simp: record_failure_def)

lemma exec_total: "exec e ev s = Some s' \<Longrightarrow> total_bar s' = total_bar s"
  by (erule exec_cases) (auto simp: record_failure_def)

lemma sum_inflight_init: "sum_list (replicate n ({#} :: 'a multiset)) = {#}"
  by (induction n) simp_all

lemma invs_init: "invs e n (init e n)"
  by (simp add: sum_inflight_init invs_def inv_flag_def inv_ret_def inv_prod_def inv_join_def inv_main_def
      inv_data_def inv_resp_def inv_flow_def in_pipeline_def fetched_def records_def
      init_simps list_all_length)

lemma invs_step: "invs e n s \<Longrightarrow> exec e ev s = Some s' \<Longrightarrow> invs e n s'"
  unfolding invs_def
  using inv_flag_step inv_ret_step inv_prod_step inv_join_step inv_main_step inv_data_step
    inv_resp_step inv_flow_step exec_length
  by metis

lemma reachable_invs: "reachable e n s \<Longrightarrow> invs e n s"
  by (erule reachable_invariant) (auto intro: invs_init invs_step)

lemma sum_inflight_done: "list_all is_WDone ws \<Longrightarrow> sum_list (map inflight ws) = {#}"
proof (induction ws)
  case Nil
  then show ?case by simp
next
  case (Cons w ws)
  then show ?case by (cases w) simp_all
qed

lemma decode_hit_ID: "decode_hit h = Inr x \<Longrightarrow> ID x = Id_hit h"
  by (auto simp: decode_hit_def split: option.splits sum.splits)

text \<open>When the channel of results is closed, the logs are complete.\<close>
lemma closed_flow:
  assumes "invs e n s" "ch_closed s"
  shows "failures s = []"
    and "producer s = PDone None"
    and "image_mset decode_hit (mset (fetched s)) = image_mset Inr (mset (records (data s)))"
proof -
  have j: "waiter s = JDone" "gerr s = None" "all_returned s"
    using assms by (auto simp: invs_def inv_join_def)
  show f: "failures s = []"
    using assms j by (auto simp: invs_def inv_flag_def split: list.splits)
  obtain r where r: "producer s = PDone r"
    using j(3) by (cases "producer s") (auto simp: all_returned_def)
  then show "producer s = PDone None"
    using assms f by (cases r) (auto simp: invs_def inv_ret_def)
  have "in_pipeline s = image_mset decode_hit (mset (fetched s))"
    using assms f by (simp add: invs_def inv_flow_def)
  moreover have "in_pipeline s = image_mset Inr (mset (records (data s)))"
    using j(3) r by (simp add: in_pipeline_def all_returned_def sum_inflight_done)
  ultimately show "image_mset decode_hit (mset (fetched s)) = image_mset Inr (mset (records (data s)))"
    by simp
qed

section \<open>Decoding\<close>

lemma store_Code_saved:
  "store_Code v (p, saved) = (p', Some x) \<Longrightarrow> saved = Some x \<or> (v \<noteq> JNull \<and> \<not> is_JStr v)"
  by (cases v) (auto split: option.splits)

lemma fold_decode_saved:
  "fold decode_member kvs (p, saved) = (p', Some x) \<Longrightarrow>
   saved = Some x \<or> (\<exists>v \<in> set (code_members (JObj kvs)). v \<noteq> JNull \<and> \<not> is_JStr v)"
proof (induction kvs arbitrary: p saved)
  case Nil
  then show ?case by simp
next
  case (Cons kv kvs)
  obtain p1 saved1 where st: "decode_member kv (p, saved) = (p1, saved1)"
    by (cases "decode_member kv (p, saved)")
  with Cons.prems have "fold decode_member kvs (p1, saved1) = (p', Some x)"
    by simp
  from Cons.IH[OF this]
  consider "saved1 = Some x" | "\<exists>v \<in> set (code_members (JObj kvs)). v \<noteq> JNull \<and> \<not> is_JStr v"
    by blast
  then show ?case
  proof cases
    case 1
    show ?thesis
    proof (cases "names_code (fst kv)")
      case True
      then have "store_Code (snd kv) (p, saved) = (p1, Some x)"
        using st 1 by (simp add: decode_member_def)
      from store_Code_saved[OF this] show ?thesis using True by auto
    next
      case False
      then show ?thesis using st 1 by (simp add: decode_member_def)
    qed
  next
    case 2
    then show ?thesis by auto
  qed
qed

lemma fold_decode_skip:
  "code_members (JObj kvs) = [] \<Longrightarrow> fold decode_member kvs st = st"
  by (induction kvs arbitrary: st) (auto simp: decode_member_def split: if_splits)

lemma unmarshal_fails_only:
  assumes "json_Unmarshal raw = Inl x"
  shows "raw = NotJSON
     \<or> (\<exists>v. raw = JSON v \<and> v \<noteq> JNull \<and> \<not> is_JObj v)
     \<or> (\<exists>v. raw = JSON v \<and> (\<exists>c \<in> set (code_members v). c \<noteq> JNull \<and> \<not> is_JStr c))"
proof (cases raw)
  case NotJSON
  then show ?thesis by simp
next
  case (JSON v)
  show ?thesis
  proof (cases v)
    case (JObj kvs)
    obtain p saved where f: "fold decode_member kvs (zero_Source, None) = (p, saved)"
      by (cases "fold decode_member kvs (zero_Source, None)")
    then have "saved = Some x" using assms JSON JObj by (cases saved) auto
    with f fold_decode_saved[of kvs zero_Source None p x] show ?thesis
      using JSON JObj by auto
  qed (use assms JSON in auto)
qed

lemma unmarshal_no_code:
  assumes "code_members (JObj kvs) = []"
  shows "json_Unmarshal (JSON (JObj kvs)) = Inr \<lparr>Code = ''''\<rparr>"
  using fold_decode_skip[OF assms] by (simp add: zero_Source_def)

lemma exec_Unmarshal_ok:
  assumes "panicked s = None" "i < length (workers s)" "workers s ! i = WDecode h"
    and "RawSource h = Some raw" "json_Unmarshal raw = Inr p"
  shows "exec e (Unmarshal i) s = Some (set_worker i (WSend \<lparr>Source = p, ID = Id_hit h\<rparr>) s)"
  using assms by (simp add: exec_def)

text \<open>
  C10 (as amended).  \<^verbatim>\<open>json.Unmarshal\<close> into a \<^verbatim>\<open>Source\<close> fails only when the payload
  is no JSON document, or is a document other than an object or \<^verbatim>\<open>null\<close>, or is an object
  in which a member naming the field \<^verbatim>\<open>code\<close> (up to the case of its letters) holds a
  value that is neither a string nor \<^verbatim>\<open>null\<close>.  An object without such a member, whatever
  other members it has, decodes to a record whose code is the empty string, and the
  worker that holds the hit goes on to send it like any other.
\<close>

theorem decode_failures:
  "(json_Unmarshal raw = Inl x \<longrightarrow>
      raw = NotJSON
      \<or> (\<exists>v. raw = JSON v \<and> v \<noteq> JNull \<and> \<not> is_JObj v)
      \<or> (\<exists>v. raw = JSON v \<and> (\<exists>c \<in> set (code_members v). c \<noteq> JNull \<and> \<not> is_JStr c)))
   \<and> (code_members (JObj kvs) = [] \<longrightarrow>
      json_Unmarshal (JSON (JObj kvs)) = Inr \<lparr>Code = ''''\<rparr>
      \<and> (panicked s = None \<and> i < length (workers s) \<and> workers s ! i = WDecode h
           \<and> RawSource h = Some (JSON (JObj kvs)) \<longrightarrow>
         exec e (Unmarshal i) s
           = Some (set_worker i (WSend \<lparr>Source = \<lparr>Code = ''''\<rparr>, ID = Id_hit h\<rparr>) s)))"
  using unmarshal_fails_only unmarshal_no_code exec_Unmarshal_ok by (metis (no_types, lifting))

text \<open>
  The theorem at a document whose \<^verbatim>\<open>Code\<close> is a number, and at the hit \<open>hit_b\<close>, whose
  document has two members and none that names \<^verbatim>\<open>code\<close>.
\<close>

theorem decode_failures_witness:
  "json_Unmarshal (JSON (JObj [(''Code'', JNum ''5'')])) = Inl (UnmarshalTypeError ''number'')
   \<and> (\<exists>c \<in> set (code_members (JObj [(''Code'', JNum ''5'')])). c \<noteq> JNull \<and> \<not> is_JStr c)
   \<and> code_members (JObj [(''name'', JStr ''n''), (''n'', JNum ''1'')]) = []
   \<and> json_Unmarshal (JSON (JObj [(''name'', JStr ''n''), (''n'', JNum ''1'')])) = Inr \<lparr>Code = ''''\<rparr>
   \<and> exec env_none (Unmarshal 0) holding_b
       = Some (set_worker 0 (WSend \<lparr>Source = \<lparr>Code = ''''\<rparr>, ID = ''b''\<rparr>) holding_b)"
proof -
  have f: "json_Unmarshal (JSON (JObj [(''Code'', JNum ''5'')])) = Inl (UnmarshalTypeError ''number'')"
    by (simp add: decode_member_def names_code_def lower_ascii_def zero_Source_def)
  have n: "code_members (JObj [(''name'', JStr ''n''), (''n'', JNum ''1'')]) = []"
    by (simp add: names_code_def lower_ascii_def)
  have w: "panicked holding_b = None \<and> 0 < length (workers holding_b)
      \<and> workers holding_b ! 0 = WDecode hit_b
      \<and> RawSource hit_b = Some (JSON (JObj [(''name'', JStr ''n''), (''n'', JNum ''1'')]))"
    by (simp add: holding_b_def spawned_def hit_b_def)
  have i: "Id_hit hit_b = ''b''"
    by (simp add: hit_b_def)
  note t = decode_failures[of "JSON (JObj [(''Code'', JNum ''5'')])" "UnmarshalTypeError ''number''"
      "[(''name'', JStr ''n''), (''n'', JNum ''1'')]" holding_b 0 hit_b env_none]
  have "\<exists>c \<in> set (code_members (JObj [(''Code'', JNum ''5'')])). c \<noteq> JNull \<and> \<not> is_JStr c"
    using t f by auto
  moreover have "json_Unmarshal (JSON (JObj [(''name'', JStr ''n''), (''n'', JNum ''1'')])) = Inr \<lparr>Code = ''''\<rparr>"
    using t n by blast
  moreover have "exec env_none (Unmarshal 0) holding_b
       = Some (set_worker 0 (WSend \<lparr>Source = \<lparr>Code = ''''\<rparr>, ID = ''b''\<rparr>) holding_b)"
    using t n w i by simp
  ultimately show ?thesis using f n by blast
qed

text \<open>
  C10 as it was stated fails.  The document \<^verbatim>\<open>[]\<close> is well-formed JSON and has no member
  \<^verbatim>\<open>code\<close>, and decoding it fails.  So does decoding the object \<^verbatim>\<open>{"CODE": 5}\<close>, which has
  no member whose key is \<^verbatim>\<open>code\<close>; and the object \<^verbatim>\<open>{"Code": "x"}\<close>, which has none either,
  does not decode to the empty string.
\<close>

theorem decode_array_fails:
  "code_members (JArr []) = []
   \<and> json_Unmarshal (JSON (JArr [])) = Inl (UnmarshalTypeError ''array'')
   \<and> map_of [(''CODE'', JNum ''5'')] ''code'' = None
   \<and> json_Unmarshal (JSON (JObj [(''CODE'', JNum ''5'')])) = Inl (UnmarshalTypeError ''number'')
   \<and> map_of [(''Code'', JStr ''x'')] ''code'' = None
   \<and> json_Unmarshal (JSON (JObj [(''Code'', JStr ''x'')])) = Inr \<lparr>Code = ''x''\<rparr>"
  by (simp add: decode_member_def names_code_def lower_ascii_def zero_Source_def)

section \<open>Runs that succeed\<close>

text \<open>
  The invariants say what holds if a run succeeds.  Here is a schedule that does
  succeed, for every source that ends and whose hits can all be decoded: worker 0
  takes every hit, and when the producer has returned the workers leave one after
  the other.
\<close>

lemma run_append:
  "run e (xs @ ys) s = (case run e xs s of None \<Rightarrow> None | Some s' \<Rightarrow> run e ys s')"
  by (induction xs arbitrary: s) (auto split: option.splits)

lemma workers_exit:
  assumes "hits_closed s" "panicked s = None"
    and "workers s = replicate k (WDone None) @ replicate m WRecv"
  shows "run e (map HitsEnd [k..<k + m]) s = Some (s\<lparr>workers := replicate (k + m) (WDone None)\<rparr>)"
  using assms
proof (induction m arbitrary: k s)
  case 0
  then show ?case by simp
next
  case (Suc m)
  let ?s1 = "s\<lparr>workers := replicate (Suc k) (WDone None) @ replicate m WRecv\<rparr>"
  have at: "at_worker k WRecv s"
    using Suc.prems(3) by (simp add: at_worker_def nth_append)
  have upd: "(workers s)[k := WDone None] = replicate (Suc k) (WDone None) @ replicate m WRecv"
    using Suc.prems(3) by (simp add: list_update_append replicate_append_same)
  have "exec e (HitsEnd k) s = Some ?s1"
    using at Suc.prems(1,2) upd by (simp add: exec_def worker_return_def go_return_def)
  moreover have "run e (map HitsEnd [Suc k..<Suc k + m]) ?s1
      = Some (?s1\<lparr>workers := replicate (Suc k + m) (WDone None)\<rparr>)"
    by (rule Suc.IH) (use Suc.prems in simp_all)
  moreover have "[k..<k + Suc m] = k # [Suc k..<Suc k + m]"
    by (simp add: upt_conv_Cons)
  ultimately show ?case by simp
qed

lemma empty_source_succeeds:
  assumes "Scroll e 0 = EOF" "panicked (init e n) = None"
  shows "\<exists>s. run e (Fetch # finish_schedule n) (init e n) = Some s
           \<and> succeeded s \<and> writes s = [JNull]"
proof -
  define s0 where "s0 = init e n"
  define s1 where "s1 = s0\<lparr>responses := [EOF], producer := PDone None, hits_closed := True\<rparr>"
  define s2 where "s2 = s1\<lparr>workers := replicate n (WDone None)\<rparr>"
  have f0: "producer s0 = PFetch" "responses s0 = []" "panicked s0 = None"
    "workers s0 = replicate n WRecv" "waiter s0 = JWait" "gerr s0 = None" "mainpc s0 = MRange"
    "data s0 = None" "writes s0 = []"
    using assms(2) by (simp_all add: s0_def init_simps)
  have a: "exec e Fetch s0 = Some s1"
    using f0 assms(1) by (simp add: exec_def s1_def producer_return_def go_return_def)
  have "run e (map HitsEnd [0..<0 + n]) s1 = Some (s1\<lparr>workers := replicate (0 + n) (WDone None)\<rparr>)"
    by (rule workers_exit) (use f0 in \<open>simp_all add: s1_def\<close>)
  then have b: "run e (map HitsEnd [0..<n]) s1 = Some s2"
    by (simp add: s2_def)
  have "list_all is_WDone (replicate n (WDone None))"
    by (simp add: list_all_length)
  then have j: "all_returned s2"
    by (simp add: all_returned_def s2_def s1_def)
  have c: "run e [WaitReturns, AfterWait, ChEnd, WriteFile True, FinishPrint] s2
      = Some (s2\<lparr>waiter := JDone, cancelled := True, ch_closed := True,
                   writes := [JNull], mainpc := MDone\<rparr>)"
    using j f0 by (simp add: exec_def s2_def s1_def json_Marshal_def)
  have "run e (Fetch # finish_schedule n) s0
      = Some (s2\<lparr>waiter := JDone, cancelled := True, ch_closed := True,
                   writes := [JNull], mainpc := MDone\<rparr>)"
    using a b c by (simp add: finish_schedule_def run_append)
  moreover have "succeeded (s2\<lparr>waiter := JDone, cancelled := True, ch_closed := True,
                   writes := [JNull], mainpc := MDone\<rparr>)"
    using f0 by (simp add: succeeded_def s2_def s1_def)
  ultimately show ?thesis by (simp add: s0_def)
qed

lemma hit_round:
  assumes "producer s = PSend (h # hs)" "workers s = replicate n WRecv" "0 < n"
    and "panicked s = None" "\<not> cancelled s" "\<not> ch_closed s" "mainpc s = MRange"
    and "decode_hit h = Inr x"
  shows "run e [Publish 0, Unmarshal 0, Emit 0, Increment 0, WorkerPoll 0] s
     = Some (s\<lparr>producer := PSend hs, data := append_slice (data s) x, bar := bar s + 1\<rparr>)"
proof -
  obtain raw p where r: "RawSource h = Some raw" "json_Unmarshal raw = Inr p"
    "x = \<lparr>Source = p, ID = Id_hit h\<rparr>"
    using assms(8) by (auto simp: decode_hit_def split: option.splits sum.splits)
  have w: "(replicate n WRecv)[0 := WRecv] = replicate n WRecv"
    using assms(3) by (simp add: list_update_same_conv)
  show ?thesis
    using assms(1-7) r w
    by (simp add: exec_def at_worker_def set_worker_def worker_return_def go_return_def)
qed

lemma page_round:
  assumes "producer s = PSend hs" "workers s = replicate n WRecv" "0 < n \<or> hs = []"
    and "panicked s = None" "\<not> cancelled s" "\<not> ch_closed s" "mainpc s = MRange"
    and "\<forall>h \<in> set hs. \<exists>x. decode_hit h = Inr x"
  shows "\<exists>evs d b. run e evs s = Some (s\<lparr>producer := PSend [], data := d, bar := b\<rparr>)"
  using assms
proof (induction hs arbitrary: s)
  case Nil
  have "run e [] s = Some (s\<lparr>producer := PSend [], data := data s, bar := bar s\<rparr>)"
    using Nil.prems(1) by simp
  then show ?case by blast
next
  case (Cons h hs)
  then obtain x where x: "decode_hit h = Inr x" by auto
  have n: "0 < n" using Cons.prems(3) by simp
  let ?s1 = "s\<lparr>producer := PSend hs, data := append_slice (data s) x, bar := bar s + 1\<rparr>"
  have one: "run e [Publish 0, Unmarshal 0, Emit 0, Increment 0, WorkerPoll 0] s = Some ?s1"
    using Cons.prems(1,2) n Cons.prems(4-7) x by (rule hit_round)
  have "\<exists>evs d b. run e evs ?s1 = Some (?s1\<lparr>producer := PSend [], data := d, bar := b\<rparr>)"
    by (rule Cons.IH) (use Cons.prems n in simp_all)
  then obtain evs d b where
    rest: "run e evs ?s1 = Some (?s1\<lparr>producer := PSend [], data := d, bar := b\<rparr>)"
    by blast
  have "run e ([Publish 0, Unmarshal 0, Emit 0, Increment 0, WorkerPoll 0] @ evs) s
      = Some (s\<lparr>producer := PSend [], data := d, bar := b\<rparr>)"
    by (simp only: run_append one rest option.case) simp
  then show ?case by blast
qed

lemma pages_round:
  assumes "ends_at e k" "length (responses s) + m = k"
    and "producer s = PFetch" "workers s = replicate n WRecv" "0 < n \<or> source_hits e k = []"
    and "panicked s = None" "\<not> cancelled s" "\<not> ch_closed s" "mainpc s = MRange"
    and "\<forall>h \<in> set (source_hits e k). \<exists>x. decode_hit h = Inr x"
  shows "\<exists>evs rs d b. run e evs s
     = Some (s\<lparr>responses := rs, producer := PDone None, hits_closed := True, data := d, bar := b\<rparr>)"
  using assms
proof (induction m arbitrary: s)
  case 0
  then have "Scroll e (length (responses s)) = EOF" by (simp add: ends_at_def)
  then have "run e [Fetch] s
      = Some (s\<lparr>responses := responses s @ [EOF], producer := PDone None, hits_closed := True,
                 data := data s, bar := bar s\<rparr>)"
    using "0.prems"(3,6) by (simp add: exec_def producer_return_def go_return_def)
  then show ?case by blast
next
  case (Suc m)
  let ?j = "length (responses s)"
  have j: "?j < k" using Suc.prems(2) by simp
  then have "is_Page (Scroll e ?j)" using Suc.prems(1) by (simp add: ends_at_def)
  then obtain hs where hs: "Scroll e ?j = Page hs" by (cases "Scroll e ?j") auto
  have sub: "set hs \<subseteq> set (source_hits e k)"
    using j hs by (force simp: source_hits_def)
  let ?s1 = "s\<lparr>responses := responses s @ [Page hs], producer := PSend hs\<rparr>"
  have a: "exec e Fetch s = Some ?s1"
    using Suc.prems(3,6) hs by (simp add: exec_def)
  have "\<exists>evs d b. run e evs ?s1 = Some (?s1\<lparr>producer := PSend [], data := d, bar := b\<rparr>)"
  proof (rule page_round)
    show "0 < n \<or> hs = []" using Suc.prems(5) sub by auto
    show "\<forall>h \<in> set hs. \<exists>x. decode_hit h = Inr x" using Suc.prems(10) sub by blast
  qed (use Suc.prems in simp_all)
  then obtain evs d b where
    b: "run e evs ?s1 = Some (?s1\<lparr>producer := PSend [], data := d, bar := b\<rparr>)"
    by blast
  let ?s2 = "?s1\<lparr>producer := PSend [], data := d, bar := b\<rparr>"
  let ?s3 = "s\<lparr>responses := responses s @ [Page hs], producer := PFetch, data := d, bar := b\<rparr>"
  have c: "exec e ProducerPoll ?s2 = Some ?s3"
    using Suc.prems(6,7) by (simp add: exec_def)
  have "\<exists>evs rs d' b'. run e evs ?s3
      = Some (?s3\<lparr>responses := rs, producer := PDone None, hits_closed := True, data := d', bar := b'\<rparr>)"
    by (rule Suc.IH) (use Suc.prems in simp_all)
  then obtain evs' rs d' b' where
    d: "run e evs' ?s3
      = Some (?s3\<lparr>responses := rs, producer := PDone None, hits_closed := True, data := d', bar := b'\<rparr>)"
    by blast
  have "run e (Fetch # evs @ ProducerPoll # evs') s
      = Some (s\<lparr>responses := rs, producer := PDone None, hits_closed := True, data := d', bar := b'\<rparr>)"
    using a b c d by (simp add: run_append)
  then show ?case by blast
qed

lemma clean_source_succeeds:
  assumes "ends_at e k" "\<forall>h \<in> set (source_hits e k). \<exists>x. decode_hit h = Inr x"
    and "0 < n \<or> source_hits e k = []" "panicked (init e n) = None"
  shows "\<exists>s. reachable e n s \<and> succeeded s"
proof -
  define s0 where "s0 = init e n"
  have f0: "producer s0 = PFetch" "responses s0 = []" "panicked s0 = None"
    "workers s0 = replicate n WRecv" "waiter s0 = JWait" "gerr s0 = None" "mainpc s0 = MRange"
    "\<not> cancelled s0" "\<not> ch_closed s0"
    using assms(4) by (simp_all add: s0_def init_simps)
  have "\<exists>evs rs d b. run e evs s0
     = Some (s0\<lparr>responses := rs, producer := PDone None, hits_closed := True, data := d, bar := b\<rparr>)"
    using assms(1) _ f0(1) f0(4) assms(3) f0(3) f0(8) f0(9) f0(7) assms(2)
    by (rule pages_round) (simp add: f0)
  then obtain evs rs d b where
    a: "run e evs s0
     = Some (s0\<lparr>responses := rs, producer := PDone None, hits_closed := True, data := d, bar := b\<rparr>)"
    by blast
  let ?s1 = "s0\<lparr>responses := rs, producer := PDone None, hits_closed := True, data := d, bar := b\<rparr>"
  let ?s2 = "?s1\<lparr>workers := replicate n (WDone None)\<rparr>"
  have "run e (map HitsEnd [0..<0 + n]) ?s1 = Some (?s1\<lparr>workers := replicate (0 + n) (WDone None)\<rparr>)"
    by (rule workers_exit) (use f0 in simp_all)
  then have b: "run e (map HitsEnd [0..<n]) ?s1 = Some ?s2"
    by simp
  have "list_all is_WDone (replicate n (WDone None))"
    by (simp add: list_all_length)
  then have j: "all_returned ?s2"
    by (simp add: all_returned_def)
  let ?s3 = "?s2\<lparr>waiter := JDone, cancelled := True, ch_closed := True,
                   writes := writes s0 @ [json_Marshal d], mainpc := MDone\<rparr>"
  have c: "run e [WaitReturns, AfterWait, ChEnd, WriteFile True, FinishPrint] ?s2 = Some ?s3"
    using j f0 by (simp add: exec_def)
  have "run e (evs @ finish_schedule n) s0 = Some ?s3"
    using a b c by (simp add: finish_schedule_def run_append)
  then have "reachable e n ?s3"
    unfolding s0_def by (rule reachable_run)
  moreover have "succeeded ?s3"
    using f0 by (simp add: succeeded_def)
  ultimately show ?thesis by blast
qed

section \<open>Properties of every run\<close>

lemmas all_splits =
  if_splits option.splits response.splits ppc.splits wpc.splits list.splits sum.splits
  jpc.splits mpc.splits

lemma exec_closes:
  "exec e ev s = Some s' \<Longrightarrow> \<not> ch_closed s \<Longrightarrow> ch_closed s' \<Longrightarrow>
   ev = AfterWait \<and> waiter s = JJoined None"
  by (cases ev) (auto simp: exec_def ret_defs Let_def split: all_splits)

lemma exec_flag:
  "exec e ev s = Some s' \<Longrightarrow>
   (cancelled s \<longrightarrow> cancelled s') \<and> (\<exists>xs. failures s' = failures s @ xs)
   \<and> (\<forall>x. gerr s = Some x \<longrightarrow> gerr s' = Some x)"
  by (erule exec_cases) (auto simp: record_failure_def)

text \<open>
  C5.  In every reachable state the producer has returned nil exactly when the last
  answer of \<^verbatim>\<open>scroll.Do\<close> was \<^verbatim>\<open>io.EOF\<close>; when the last answer was another error the
  producer has returned that error; the producer has returned exactly when \<^verbatim>\<open>hits\<close>
  is closed, whatever it returned; and once \<^verbatim>\<open>hits\<close> is closed, every worker that
  waits in \<^verbatim>\<open>range hits\<close> can leave its loop and return nil.
\<close>

theorem producer_exit:
  assumes "reachable e n s"
  shows "(producer s = PDone None \<longleftrightarrow> responses s \<noteq> [] \<and> last (responses s) = EOF)
     \<and> (\<forall>x. responses s \<noteq> [] \<and> last (responses s) = Failure x \<longrightarrow> producer s = PDone (Some x))
     \<and> (is_PDone (producer s) \<longleftrightarrow> hits_closed s)
     \<and> (\<forall>i. hits_closed s \<and> panicked s = None \<and> i < length (workers s) \<and> workers s ! i = WRecv
            \<longrightarrow> exec e (HitsEnd i) s = Some (worker_return i None s))"
proof -
  have r: "inv_resp e s" and p: "inv_prod s"
    using reachable_invs[OF assms] by (simp_all add: invs_def)
  have last_page: "is_Page (last (responses s))" if "\<not> is_PDone (producer s)" "responses s \<noteq> []"
  proof -
    have "length (responses s) - 1 < length (responses s)" using that(2) by simp
    then have "is_Page (responses s ! (length (responses s) - 1))"
      using r that(1) unfolding inv_resp_def by blast
    then show ?thesis using that(2) by (simp add: last_conv_nth)
  qed
  have a: "producer s = PDone None \<longleftrightarrow> responses s \<noteq> [] \<and> last (responses s) = EOF"
  proof
    assume d: "producer s = PDone None"
    then have "responses s \<noteq> []" using r by (auto simp: inv_resp_def)
    moreover have "last (responses s) = EOF"
      using r d by (auto simp: inv_resp_def split: response.splits)
    ultimately show "responses s \<noteq> [] \<and> last (responses s) = EOF" by simp
  next
    assume l: "responses s \<noteq> [] \<and> last (responses s) = EOF"
    then have "is_PDone (producer s)" using last_page by fastforce
    then obtain x where "producer s = PDone x" by (cases "producer s") auto
    then show "producer s = PDone None"
      using r l by (auto simp: inv_resp_def split: response.splits)
  qed
  have b: "producer s = PDone (Some x)" if "responses s \<noteq> []" "last (responses s) = Failure x" for x
  proof -
    have "is_PDone (producer s)" using last_page that by fastforce
    then obtain y where "producer s = PDone y" by (cases "producer s") auto
    then show ?thesis using r that by (auto simp: inv_resp_def split: response.splits)
  qed
  have c: "is_PDone (producer s) \<longleftrightarrow> hits_closed s"
    using p by (simp add: inv_prod_def)
  have d: "exec e (HitsEnd i) s = Some (worker_return i None s)"
    if "hits_closed s" "panicked s = None" "i < length (workers s)" "workers s ! i = WRecv" for i
    using that by (simp add: exec_def at_worker_def)
  show ?thesis using a b c d by blast
qed

text \<open>
  C7.  In every reachable state, if \<^verbatim>\<open>ch\<close> is closed then the producer and every worker
  have returned and the waiting goroutine is past \<^verbatim>\<open>g.Wait()\<close>; and the only step that
  closes \<^verbatim>\<open>ch\<close> is the one after \<^verbatim>\<open>g.Wait()\<close> has returned nil, taken when the producer
  and all workers have returned.
\<close>

theorem results_closed_after_join:
  assumes "reachable e n s"
  shows "(ch_closed s \<longrightarrow>
            is_PDone (producer s) \<and> list_all is_WDone (workers s) \<and> waiter s = JDone)
     \<and> (\<forall>ev s'. exec e ev s = Some s' \<and> \<not> ch_closed s \<and> ch_closed s' \<longrightarrow>
            ev = AfterWait \<and> waiter s = JJoined None
            \<and> is_PDone (producer s) \<and> list_all is_WDone (workers s))"
proof -
  have j: "inv_join s"
    using reachable_invs[OF assms] by (simp add: invs_def)
  have a: "ch_closed s \<longrightarrow> is_PDone (producer s) \<and> list_all is_WDone (workers s) \<and> waiter s = JDone"
    using j by (auto simp: inv_join_def all_returned_def)
  have b: "ev = AfterWait \<and> waiter s = JJoined None
      \<and> is_PDone (producer s) \<and> list_all is_WDone (workers s)"
    if "exec e ev s = Some s'" "\<not> ch_closed s" "ch_closed s'" for ev s'
  proof -
    have "ev = AfterWait \<and> waiter s = JJoined None" using exec_closes that by blast
    then show ?thesis using j by (auto simp: inv_join_def all_returned_def)
  qed
  show ?thesis using a b by blast
qed

text \<open>
  C6 (as amended).  The context starts not cancelled and the group starts without an
  error.  In every reachable state the context is cancelled exactly when a function
  passed to \<^verbatim>\<open>g.Go\<close> has returned an error or \<^verbatim>\<open>g.Wait()\<close> has returned; the error the
  group keeps is the first one of the log of failures; and no step resets the flag,
  removes a failure from the log or replaces the error that is kept.
\<close>

theorem cancellation_flag:
  assumes "reachable e n s"
  shows "\<not> cancelled (init e n) \<and> gerr (init e n) = None
     \<and> (cancelled s \<longleftrightarrow> failures s \<noteq> [] \<or> waiter s \<noteq> JWait)
     \<and> gerr s = (case failures s of [] \<Rightarrow> None | x # xs \<Rightarrow> Some x)
     \<and> (\<forall>ev s'. exec e ev s = Some s' \<longrightarrow>
            (cancelled s \<longrightarrow> cancelled s') \<and> (\<exists>xs. failures s' = failures s @ xs)
            \<and> (\<forall>x. gerr s = Some x \<longrightarrow> gerr s' = Some x))"
proof -
  have f: "inv_flag s"
    using reachable_invs[OF assms] by (simp add: invs_def)
  then have "(cancelled s \<longleftrightarrow> failures s \<noteq> [] \<or> waiter s \<noteq> JWait)
      \<and> gerr s = (case failures s of [] \<Rightarrow> None | x # xs \<Rightarrow> Some x)"
    by (simp add: inv_flag_def)
  moreover have "\<not> cancelled (init e n) \<and> gerr (init e n) = None"
    by (simp add: init_simps)
  ultimately show ?thesis using exec_flag by blast
qed

lemma failure_is_last:
  assumes "inv_resp e s" "Failure x \<in> set (responses s)"
  shows "producer s = PDone (Some x)"
proof -
  obtain k where k: "k < length (responses s)" "responses s ! k = Failure x"
    using assms(2) by (auto simp: in_set_conv_nth)
  then have "is_PDone (producer s) \<and> Suc k = length (responses s)"
    using assms(1) unfolding inv_resp_def by (metis is_Page.simps(3))
  then have d: "is_PDone (producer s)" and sk: "Suc k = length (responses s)"
    by simp_all
  have "responses s \<noteq> []" using k(1) by auto
  then have "last (responses s) = responses s ! (length (responses s) - 1)"
    by (rule last_conv_nth)
  also have "length (responses s) - 1 = k" using sk by simp
  finally have l: "last (responses s) = Failure x" using k(2) by simp
  from d obtain y where "producer s = PDone y" by (cases "producer s") auto
  then show ?thesis using assms(1) l by (auto simp: inv_resp_def)
qed

text \<open>
  C2.  In every reachable state in which \<^verbatim>\<open>scroll.Do\<close> has returned an error other than
  \<^verbatim>\<open>io.EOF\<close>, or in which some hit of a page fetched cannot be decoded (whether a
  worker has tried it yet or not, and however many other hits were decoded),
  \<^verbatim>\<open>ioutil.WriteFile\<close> has not been called, \<^verbatim>\<open>main\<close> is still in \<^verbatim>\<open>range ch\<close>, \<^verbatim>\<open>ch\<close> is
  not closed, and the run has not succeeded.  The log of writes only grows, so the
  write never happens in such a run.
\<close>

theorem failure_never_persists:
  assumes "reachable e n s"
    and "(\<exists>x. Failure x \<in> set (responses s)) \<or> (\<exists>h \<in> set (fetched s). \<forall>y. decode_hit h \<noteq> Inr y)"
  shows "writes s = [] \<and> mainpc s = MRange \<and> \<not> ch_closed s \<and> \<not> succeeded s"
proof -
  have i: "invs e n s" by (rule reachable_invs[OF assms(1)])
  have nc: "\<not> ch_closed s"
  proof
    assume c: "ch_closed s"
    note cf = closed_flow[OF i c]
    from assms(2) show False
    proof
      assume "\<exists>x. Failure x \<in> set (responses s)"
      then obtain x where "Failure x \<in> set (responses s)" by blast
      moreover have "inv_resp e s" using i by (simp add: invs_def)
      ultimately have "producer s = PDone (Some x)"
        by (simp add: failure_is_last)
      then show False using cf(2) by simp
    next
      assume "\<exists>h \<in> set (fetched s). \<forall>y. decode_hit h \<noteq> Inr y"
      then obtain h where h: "h \<in> set (fetched s)" "\<forall>y. decode_hit h \<noteq> Inr y" by blast
      then have "decode_hit h \<in># image_mset decode_hit (mset (fetched s))" by simp
      then have "decode_hit h \<in># image_mset Inr (mset (records (data s)))"
        using cf(3) by simp
      then show False using h(2) by auto
    qed
  qed
  then have "mainpc s = MRange" using i by (auto simp: invs_def inv_main_def)
  then show ?thesis using i nc by (auto simp: invs_def inv_main_def succeeded_def)
qed

text \<open>
  C4 (as amended).  \<^verbatim>\<open>ioutil.WriteFile\<close> is called at most once in a run, and exactly
  once in a run that succeeds, with the serialization of the final \<^verbatim>\<open>data\<close>: the
  document \<^verbatim>\<open>null\<close> when no record was collected, and otherwise an array with one object
  for each record, in order, whose members are \<^verbatim>\<open>code\<close> (the decoded string) and \<^verbatim>\<open>ID\<close>
  (the identifier of the hit), in this order.
\<close>

theorem persisted_once:
  assumes "reachable e n s"
  shows "length (writes s) \<le> 1
     \<and> (succeeded s \<longrightarrow> writes s = [json_Marshal (data s)])
     \<and> (\<forall>j \<in> set (writes s).
          (records (data s) = [] \<and> j = JNull)
          \<or> (records (data s) \<noteq> []
              \<and> j = JArr (map (\<lambda>h. JObj [(''code'', JStr (Code (Source h))), (''ID'', JStr (ID h))])
                          (records (data s)))))"
proof -
  have m: "inv_main s" and d: "inv_data s"
    using reachable_invs[OF assms] by (simp_all add: invs_def)
  have w: "writes s = [] \<or> writes s = [json_Marshal (data s)]"
    using m by (cases "mainpc s") (auto simp: inv_main_def)
  have s: "succeeded s \<longrightarrow> writes s = [json_Marshal (data s)]"
    using m by (auto simp: inv_main_def succeeded_def)
  have shape: "(records (data s) = [] \<and> json_Marshal (data s) = JNull)
      \<or> (records (data s) \<noteq> []
          \<and> json_Marshal (data s)
             = JArr (map (\<lambda>h. JObj [(''code'', JStr (Code (Source h))), (''ID'', JStr (ID h))])
                         (records (data s))))"
    using d
    by (cases "data s")
      (auto simp: inv_data_def json_Marshal_def records_def marshal_Hit_def marshal_Source_members_def)
  show ?thesis using w s shape by auto
qed

lemma init_dead:
  assumes "reachable e n s" "panicked (init e n) \<noteq> None"
  shows "s = init e n"
  using assms(1)
proof (rule reachable_invariant)
  show "init e n = init e n" by simp
next
  fix s ev s'
  assume "s = init e n" "exec e ev s = Some s'"
  then show "s' = init e n" using assms(2) by (auto dest: exec_alive)
qed

lemma reachable_total:
  assumes "reachable e n s" "panicked (init e n) = None"
  shows "Count e = Inr (total_bar s)"
  using assms(1)
proof (rule reachable_invariant)
  show "Count e = Inr (total_bar (init e n))"
    using assms(2) by (auto simp: init_def spawned_def split: option.splits sum.splits)
next
  fix s ev s'
  assume "Count e = Inr (total_bar s)" "exec e ev s = Some s'"
  then show "Count e = Inr (total_bar s')" by (simp add: exec_total)
qed

lemma succeeded_total:
  assumes "reachable e n s" "succeeded s"
  shows "Count e = Inr (total_bar s)"
proof (cases "panicked (init e n) = None")
  case True
  then show ?thesis using assms(1) by (rule reachable_total[rotated])
next
  case False
  then have "s = init e n" using assms(1) init_dead by blast
  then show ?thesis using assms(2) by (simp add: succeeded_def init_simps)
qed

lemma ends_at_unique: "ends_at e k \<Longrightarrow> ends_at e k' \<Longrightarrow> k = k'"
proof (rule ccontr)
  assume a: "ends_at e k" "ends_at e k'" "k \<noteq> k'"
  then consider "k < k'" | "k' < k" by linarith
  then show False
  proof cases
    case 1
    then have "is_Page (Scroll e k)" using a(2) by (simp add: ends_at_def)
    then show False using a(1) by (simp add: ends_at_def)
  next
    case 2
    then have "is_Page (Scroll e k')" using a(1) by (simp add: ends_at_def)
    then show False using a(2) by (simp add: ends_at_def)
  qed
qed

lemma source_hits_Suc: "source_hits e (Suc k) = source_hits e k @ page_hits (Scroll e k)"
  by (simp add: source_hits_def)

lemma closed_fetched:
  assumes i: "invs e n s" and c: "ch_closed s"
  shows "\<exists>k. ends_at e k \<and> fetched s = source_hits e k"
proof -
  have r: "inv_resp e s" using i by (simp add: invs_def)
  have p: "producer s = PDone None" by (rule closed_flow(2)[OF i c])
  have ne: "responses s \<noteq> []" using r p by (auto simp: inv_resp_def)
  have l: "last (responses s) = EOF"
    using r p by (auto simp: inv_resp_def split: response.splits)
  define k where "k = length (responses s) - 1"
  have len: "length (responses s) = Suc k" using ne by (simp add: k_def)
  have lastk: "responses s ! k = EOF" using l ne by (simp add: last_conv_nth k_def)
  have eq: "responses s ! j = Scroll e j" if "j < Suc k" for j
  proof -
    have "j < length (responses s)" using that len by simp
    then have "responses s ! j = Scroll e j
        \<or> is_PDone (producer s) \<and> Suc j = length (responses s) \<and> responses s ! j = Failure Canceled"
      using r unfolding inv_resp_def by blast
    then show ?thesis using lastk len by auto
  qed
  have pg: "is_Page (Scroll e j)" if "j < k" for j
  proof -
    have "j < length (responses s)" using that len by simp
    then have "is_Page (responses s ! j) \<or> is_PDone (producer s) \<and> Suc j = length (responses s)"
      using r unfolding inv_resp_def by blast
    then show ?thesis using that len eq[of j] by auto
  qed
  have "ends_at e k" using eq[of k] lastk pg by (simp add: ends_at_def)
  moreover have "responses s = map (Scroll e) [0..<Suc k]"
    by (rule nth_equalityI) (use len eq in \<open>auto simp del: upt_Suc simp: nth_map_upt\<close>)
  then have "fetched s = source_hits e (Suc k)"
    by (simp add: fetched_def source_hits_def comp_def del: upt_Suc)
  then have "fetched s = source_hits e k"
    using eq[of k] lastk by (simp add: source_hits_Suc)
  ultimately show ?thesis by blast
qed

lemma succeeded_closed: "invs e n s \<Longrightarrow> succeeded s \<Longrightarrow> ch_closed s"
  by (auto simp: invs_def inv_main_def succeeded_def)

lemma decoded_ids:
  assumes "image_mset decode_hit (mset hs) = image_mset Inr (mset xs)"
  shows "mset (map Id_hit hs) = mset (map ID xs)"
proof -
  define f :: "error + Hit \<Rightarrow> string" where "f = (\<lambda>r. case r of Inl x \<Rightarrow> '''' | Inr x \<Rightarrow> ID x)"
  have ok: "\<exists>x. decode_hit h = Inr x" if "h \<in> set hs" for h
  proof -
    have "decode_hit h \<in># image_mset decode_hit (mset hs)" using that by simp
    then have "decode_hit h \<in># image_mset Inr (mset xs)" using assms by simp
    then show ?thesis by auto
  qed
  have "image_mset f (image_mset decode_hit (mset hs)) = image_mset f (image_mset Inr (mset xs))"
    using assms by simp
  then have "image_mset (\<lambda>h. f (decode_hit h)) (mset hs) = image_mset (\<lambda>x. f (Inr x)) (mset xs)"
    by (simp add: multiset.map_comp comp_def)
  moreover have "image_mset (\<lambda>h. f (decode_hit h)) (mset hs) = image_mset Id_hit (mset hs)"
  proof (rule image_mset_cong)
    fix h assume "h \<in># mset hs"
    then obtain x where "decode_hit h = Inr x" using ok by auto
    then show "f (decode_hit h) = Id_hit h" using decode_hit_ID by (simp add: f_def)
  qed
  moreover have "image_mset (\<lambda>x. f (Inr x)) (mset xs) = image_mset ID (mset xs)"
    by (simp add: f_def)
  ultimately show ?thesis by simp
qed

text \<open>
  C1 (as amended).  In every run that succeeds the source has ended, the pages fetched
  are all its pages, and \<^verbatim>\<open>data\<close> holds exactly the decoded hits of these pages, each
  as often as the source yielded it: the identifiers are the same with the same
  multiplicities (so none is missing, and none is repeated unless the source repeated
  it), and there are as many records as hits.  The total of the progress bar is what
  the count request reported; the number of records equals it when, and only when,
  the source yields as many hits as it counted.
\<close>

theorem result_set_complete:
  assumes "reachable e n s" "succeeded s"
  shows "(\<exists>k. ends_at e k \<and> fetched s = source_hits e k)
     \<and> image_mset Inr (mset (records (data s))) = image_mset decode_hit (mset (fetched s))
     \<and> mset (map ID (records (data s))) = mset (map Id_hit (fetched s))
     \<and> set (map ID (records (data s))) = set (map Id_hit (fetched s))
     \<and> length (records (data s)) = length (fetched s)
     \<and> (distinct (map Id_hit (fetched s)) \<longrightarrow> distinct (map ID (records (data s))))
     \<and> Count e = Inr (total_bar s)
     \<and> (total_bar s = int (length (fetched s)) \<longrightarrow> int (length (records (data s))) = total_bar s)"
proof -
  have i: "invs e n s" by (rule reachable_invs[OF assms(1)])
  have c: "ch_closed s" by (rule succeeded_closed[OF i assms(2)])
  have f: "image_mset decode_hit (mset (fetched s)) = image_mset Inr (mset (records (data s)))"
    by (rule closed_flow(3)[OF i c])
  have m: "mset (map ID (records (data s))) = mset (map Id_hit (fetched s))"
    using decoded_ids[OF f] by simp
  have st: "set (map ID (records (data s))) = set (map Id_hit (fetched s))"
    using m by (rule mset_eq_setD)
  have len: "length (records (data s)) = length (fetched s)"
    using m by (metis length_map size_mset)
  have d: "distinct (map Id_hit (fetched s)) \<longrightarrow> distinct (map ID (records (data s)))"
    using m by (metis mset_eq_imp_distinct_iff)
  show ?thesis
    using closed_fetched[OF i c] f m st len d succeeded_total[OF assms] by simp
qed

text \<open>
  C8.  For one and the same source, a run with one worker and a run with
  \<open>workerCount\<close> (ten) workers that both succeed collect the same identifiers, indeed
  the same records with the same multiplicities; nothing is said about their order.
  By \<open>clean_source_succeeds\<close> both runs exist whenever the source ends and all its
  hits can be decoded.
\<close>

theorem worker_count_irrelevant:
  assumes "reachable e 1 s1" "succeeded s1" "reachable e workerCount s2" "succeeded s2"
  shows "mset (map ID (records (data s1))) = mset (map ID (records (data s2)))
     \<and> set (map ID (records (data s1))) = set (map ID (records (data s2)))
     \<and> mset (records (data s1)) = mset (records (data s2))"
proof -
  have i1: "invs e 1 s1" and i2: "invs e workerCount s2"
    using assms reachable_invs by blast+
  have c1: "ch_closed s1" and c2: "ch_closed s2"
    using i1 i2 assms succeeded_closed by blast+
  obtain k1 where k1: "ends_at e k1" "fetched s1 = source_hits e k1"
    using closed_fetched[OF i1 c1] by blast
  obtain k2 where k2: "ends_at e k2" "fetched s2 = source_hits e k2"
    using closed_fetched[OF i2 c2] by blast
  have "k1 = k2" using k1(1) k2(1) by (rule ends_at_unique)
  then have fe: "fetched s1 = fetched s2" using k1(2) k2(2) by simp
  have "image_mset Inr (mset (records (data s1))) = image_mset (Inr :: Hit \<Rightarrow> error + Hit) (mset (records (data s2)))"
    using closed_flow(3)[OF i1 c1] closed_flow(3)[OF i2 c2] fe by simp
  then have m: "mset (records (data s1)) = mset (records (data s2))"
    using multiset.inj_map[OF inj_Inr] by (auto dest: injD)
  then have "mset (map ID (records (data s1))) = mset (map ID (records (data s2)))"
    by (metis mset_map)
  then show ?thesis using m by (metis mset_eq_setD)
qed

lemma inv_resp_nth:
  assumes "inv_resp e s" "k < length (responses s)"
  shows "is_Page (responses s ! k) \<or> is_PDone (producer s) \<and> Suc k = length (responses s)"
    and "responses s ! k = Scroll e k
       \<or> is_PDone (producer s) \<and> Suc k = length (responses s) \<and> responses s ! k = Failure Canceled"
  using assms by (simp_all add: inv_resp_def)

lemma concat_map_empty: "(\<And>x. x \<in> set xs \<Longrightarrow> f x = []) \<Longrightarrow> concat (map f xs) = []"
  by (induction xs) simp_all

lemma no_pages_fetched:
  assumes r: "inv_resp e s" and z: "Scroll e 0 = EOF"
  shows "fetched s = []"
proof -
  have first: "\<not> is_Page (responses s ! 0)" if "0 < length (responses s)"
  proof -
    have "responses s ! 0 = EOF \<or> responses s ! 0 = Failure Canceled"
      using inv_resp_nth(2)[OF r that] z by auto
    then show ?thesis by auto
  qed
  have nopage: "page_hits x = []" if "x \<in> set (responses s)" for x
  proof -
    from that obtain k where k: "k < length (responses s)" "responses s ! k = x"
      unfolding in_set_conv_nth by blast
    have "k = 0"
    proof (rule ccontr)
      assume "k \<noteq> 0"
      then have pos: "0 < length (responses s)" and ne: "Suc 0 \<noteq> length (responses s)"
        using k(1) by auto
      have "is_Page (responses s ! 0)" using inv_resp_nth(1)[OF r pos] ne by simp
      then show False using first pos by simp
    qed
    then have "\<not> is_Page x" using first k by auto
    then show ?thesis by (cases x) simp_all
  qed
  show ?thesis unfolding fetched_def by (rule concat_map_empty) (rule nopage)
qed

text \<open>
  C3 (as amended).  When the first answer of the source is \<^verbatim>\<open>io.EOF\<close>, \<^verbatim>\<open>data\<close> stays the
  nil slice in every reachable state, so the result set is empty; whatever is written
  is the document \<^verbatim>\<open>null\<close>, and a run that succeeds has written exactly that, once.
  Such a run exists for every number of workers, provided the client and the count
  request did not fail.
\<close>

theorem no_records_null:
  assumes "Scroll e 0 = EOF" "reachable e n s"
  shows "data s = None \<and> records (data s) = []
     \<and> (writes s = [] \<or> writes s = [JNull])
     \<and> (succeeded s \<longrightarrow> writes s = [JNull])
     \<and> (panicked (init e n) = None \<longrightarrow>
          (\<exists>s'. reachable e n s' \<and> succeeded s' \<and> writes s' = [JNull]))"
proof -
  have i: "invs e n s" by (rule reachable_invs[OF assms(2)])
  have "inv_resp e s" using i by (simp add: invs_def)
  then have "fetched s = []" using assms(1) by (rule no_pages_fetched)
  moreover have "in_pipeline s \<subseteq># image_mset decode_hit (mset (fetched s))"
    using i by (simp add: invs_def inv_flow_def)
  ultimately have "in_pipeline s = {#}" by simp
  then have e: "records (data s) = []" by (simp add: in_pipeline_def)
  have "data s \<noteq> Some []" using i by (simp add: invs_def inv_data_def)
  then have d: "data s = None"
    using e by (cases "data s") (simp_all add: records_def)
  have m: "inv_main s" using i by (simp add: invs_def)
  have w: "writes s = [] \<or> writes s = [json_Marshal (data s)]"
    using m by (cases "mainpc s") (auto simp: inv_main_def)
  have "succeeded s \<longrightarrow> writes s = [json_Marshal (data s)]"
    using m by (auto simp: inv_main_def succeeded_def)
  then have safe: "data s = None \<and> records (data s) = []
      \<and> (writes s = [] \<or> writes s = [JNull])
      \<and> (succeeded s \<longrightarrow> writes s = [JNull])"
    using d w by (auto simp: json_Marshal_def records_def)
  have "\<exists>s'. reachable e n s' \<and> succeeded s' \<and> writes s' = [JNull]"
    if "panicked (init e n) = None"
    using empty_source_succeeds[OF assms(1) that] reachable_run by blast
  then show ?thesis using safe by blast
qed

lemma producer_blocked:
  assumes "producer s = PSend (h # hs)" "list_all is_WDone (workers s)" "waiter s = JWait"
    and "mainpc s = MRange" "\<not> ch_closed s"
  shows "exec e ev s = None"
proof (cases ev)
  case (Unmarshal i)
  then show ?thesis using assms(2)
    by (cases "workers s ! i") (auto simp: exec_def list_all_length)
next
  case (Emit i)
  then show ?thesis using assms(2)
    by (cases "workers s ! i") (auto simp: exec_def list_all_length)
qed (use assms in \<open>auto simp: exec_def at_worker_def all_returned_def list_all_length\<close>)

section \<open>The runs on the sample sources\<close>

lemma reach_final_none:
  "reachable env_none workerCount (final_none workerCount)"
proof -
  have "run env_none (Fetch # finish_schedule workerCount) (init env_none workerCount)
      = Some (final_none workerCount)"
    unfolding final_none_def by code_simp
  then show ?thesis by (rule reachable_run)
qed

lemma final_none_fields:
  "succeeded (final_none workerCount)" "writes (final_none workerCount) = [JNull]"
  "data (final_none workerCount) = None" "ch_closed (final_none workerCount)"
  "waiter (final_none workerCount) = JDone" "is_PDone (producer (final_none workerCount))"
  "list_all is_WDone (workers (final_none workerCount))"
  unfolding final_none_def by code_simp+

lemma reach_joined_none: "reachable env_none workerCount joined_none"
proof -
  have "run env_none (Fetch # map HitsEnd [0..<workerCount] @ [WaitReturns])
      (init env_none workerCount) = Some joined_none"
    unfolding joined_none_def by code_simp
  then show ?thesis by (rule reachable_run)
qed

lemma joined_none_fields:
  "cancelled joined_none" "failures joined_none = []" "gerr joined_none = None"
  "producer joined_none = PDone None" "list_all clean_w (workers joined_none)"
  unfolding joined_none_def by code_simp+

lemma reach_final_miscount: "reachable env_miscount workerCount final_miscount"
proof -
  have "run env_miscount (Fetch # finish_schedule workerCount) (init env_miscount workerCount)
      = Some final_miscount"
    unfolding final_miscount_def by code_simp
  then show ?thesis by (rule reachable_run)
qed

lemma final_miscount_fields:
  "succeeded final_miscount" "total_bar final_miscount = 5"
  "records (data final_miscount) = []" "Count env_miscount = Inr 5"
  unfolding final_miscount_def by code_simp+

lemma reach_final_one: "reachable env_one workerCount (final_one workerCount)"
proof -
  have "run env_one (schedule_one workerCount) (init env_one workerCount)
      = Some (final_one workerCount)"
    unfolding final_one_def by code_simp
  then show ?thesis by (rule reachable_run)
qed

lemma reach_final_one_single: "reachable env_one 1 (final_one 1)"
proof -
  have "run env_one (schedule_one 1) (init env_one 1) = Some (final_one 1)"
    unfolding final_one_def by code_simp
  then show ?thesis by (rule reachable_run)
qed

lemma final_one_fields:
  "succeeded (final_one workerCount)"
  "writes (final_one workerCount) = [JArr [JObj [(''code'', JStr ''no_matching''), (''ID'', JStr ''a'')]]]"
  "records (data (final_one workerCount)) = [\<lparr>Source = \<lparr>Code = ''no_matching''\<rparr>, ID = ''a''\<rparr>]"
  "fetched (final_one workerCount) = [hit_a]"
  "responses (final_one workerCount) = [Page [hit_a], EOF]"
  "producer (final_one workerCount) = PDone None"
  "hits_closed (final_one workerCount)"
  "total_bar (final_one workerCount) = 1"
  unfolding final_one_def by code_simp+

lemma final_one_single_fields:
  "succeeded (final_one 1)"
  "writes (final_one 1) = [JArr [JObj [(''code'', JStr ''no_matching''), (''ID'', JStr ''a'')]]]"
  "records (data (final_one 1)) = [\<lparr>Source = \<lparr>Code = ''no_matching''\<rparr>, ID = ''a''\<rparr>]"
  unfolding final_one_def by code_simp+

lemma reach_hung: "reachable env_bad workerCount hung"
proof -
  have "run env_bad schedule_bad (init env_bad workerCount) = Some hung"
    unfolding hung_def by code_simp
  then show ?thesis by (rule reachable_run)
qed

lemma hung_fields:
  "producer hung = PSend [hit_bad CHR ''a'']" "list_all is_WDone (workers hung)" "waiter hung = JWait"
  "mainpc hung = MRange" "panicked hung = None" "failures hung = replicate 10 (UnmarshalTypeError ''array'')"
  "cancelled hung" "writes hung = []" "gerr hung = Some (UnmarshalTypeError ''array'')" "\<not> ch_closed hung"
  "fetched hung = map hit_bad ''0123456789a''" "\<not> hits_closed hung"
  unfolding hung_def by code_simp+

section \<open>The claims at the sample sources\<close>

text \<open>
  C1 as it was stated fails: on a source that counts five records and then yields none
  (the index may change between the two requests, and the program never compares
  them) the run succeeds, the bar was started with five, and no record is collected.
\<close>

theorem count_differs:
  "reachable env_miscount workerCount final_miscount \<and> succeeded final_miscount
   \<and> Count env_miscount = Inr 5 \<and> total_bar final_miscount = 5
   \<and> length (records (data final_miscount)) = 0
   \<and> int (length (records (data final_miscount))) \<noteq> total_bar final_miscount"
  using reach_final_miscount final_miscount_fields by simp

text \<open>The theorem of C1 at the run with one page of one hit.\<close>

theorem result_set_complete_witness:
  "reachable env_one workerCount (final_one workerCount) \<and> succeeded (final_one workerCount)
   \<and> mset (map ID (records (data (final_one workerCount))))
       = mset (map Id_hit (fetched (final_one workerCount)))
   \<and> length (records (data (final_one workerCount))) = length (fetched (final_one workerCount))
   \<and> map ID (records (data (final_one workerCount))) = [''a'']
   \<and> Count env_one = Inr (total_bar (final_one workerCount))"
proof -
  note t = result_set_complete[OF reach_final_one final_one_fields(1)]
  have "map ID (records (data (final_one workerCount))) = [''a'']"
    by (simp add: final_one_fields(3))
  then show ?thesis using t reach_final_one final_one_fields(1) by blast
qed

text \<open>
  The theorem of C2 at the run in which ten workers have each failed on one of eleven
  hits whose \<^verbatim>\<open>code\<close> is an array.
\<close>

theorem failure_never_persists_witness:
  "reachable env_bad workerCount hung \<and> hit_bad CHR ''0'' \<in> set (fetched hung)
   \<and> decode_hit (hit_bad CHR ''0'') = Inl (UnmarshalTypeError ''array'')
   \<and> writes hung = [] \<and> mainpc hung = MRange \<and> \<not> ch_closed hung \<and> \<not> succeeded hung"
proof -
  have d: "decode_hit (hit_bad CHR ''0'') = Inl (UnmarshalTypeError ''array'')"
    by (simp add: decode_hit_def hit_bad_def decode_member_def names_code_def lower_ascii_def)
  have m: "hit_bad CHR ''0'' \<in> set (fetched hung)"
    by (simp add: hung_fields(11))
  have "\<forall>y. decode_hit (hit_bad CHR ''0'') \<noteq> Inr y"
    using d by simp
  then have "\<exists>h \<in> set (fetched hung). \<forall>y. decode_hit h \<noteq> Inr y"
    using m by blast
  then have "(\<exists>x. Failure x \<in> set (responses hung))
      \<or> (\<exists>h \<in> set (fetched hung). \<forall>y. decode_hit h \<noteq> Inr y)"
    by (rule disjI2)
  from failure_never_persists[OF reach_hung this] show ?thesis
    using reach_hung d m by blast
qed

text \<open>
  C3 as it was stated fails: on the source without records the run succeeds and the one
  write is the document \<^verbatim>\<open>null\<close>, which is not an array without elements.
\<close>

theorem empty_run_writes_null:
  "Scroll env_none 0 = EOF \<and> reachable env_none workerCount (final_none workerCount)
   \<and> succeeded (final_none workerCount)
   \<and> writes (final_none workerCount) = [JNull]
   \<and> writes (final_none workerCount) \<noteq> [JArr []]"
  using reach_final_none final_none_fields by (simp add: env_none_def)

text \<open>The theorem of C3 at the same run.\<close>

theorem no_records_null_witness:
  "Scroll env_none 0 = EOF \<and> reachable env_none workerCount (final_none workerCount)
   \<and> succeeded (final_none workerCount)
   \<and> data (final_none workerCount) = None \<and> records (data (final_none workerCount)) = []
   \<and> writes (final_none workerCount) = [JNull]"
proof -
  have z: "Scroll env_none 0 = EOF" by (simp add: env_none_def)
  from no_records_null[OF z reach_final_none] show ?thesis
    using z reach_final_none final_none_fields(1) by blast
qed

text \<open>
  C4 as it was stated fails: in the run with one page of one hit the object written has
  the members \<^verbatim>\<open>code\<close> and \<^verbatim>\<open>ID\<close>, and none called \<^verbatim>\<open>id\<close>.
\<close>

theorem artifact_member_names:
  "reachable env_one workerCount (final_one workerCount) \<and> succeeded (final_one workerCount)
   \<and> writes (final_one workerCount) = [JArr [JObj [(''code'', JStr ''no_matching''), (''ID'', JStr ''a'')]]]
   \<and> map fst [(''code'', JStr ''no_matching''), (''ID'', JStr ''a'')] = [''code'', ''ID'']
   \<and> ''id'' \<notin> set (map fst [(''code'', JStr ''no_matching''), (''ID'', JStr ''a'')])"
  using reach_final_one final_one_fields by simp

text \<open>The theorem of C4 at the run with one page of one hit and a single worker.\<close>

theorem persisted_once_witness:
  "reachable env_one 1 (final_one 1) \<and> succeeded (final_one 1)
   \<and> length (writes (final_one 1)) \<le> 1
   \<and> writes (final_one 1) = [json_Marshal (data (final_one 1))]"
proof -
  from persisted_once[OF reach_final_one_single] show ?thesis
    using reach_final_one_single final_one_single_fields(1) by blast
qed

text \<open>The theorem of C5 at the run with one page of one hit.\<close>

theorem producer_exit_witness:
  "reachable env_one workerCount (final_one workerCount)
   \<and> responses (final_one workerCount) \<noteq> []
   \<and> last (responses (final_one workerCount)) = EOF
   \<and> producer (final_one workerCount) = PDone None
   \<and> hits_closed (final_one workerCount)"
proof -
  have l: "responses (final_one workerCount) \<noteq> [] \<and> last (responses (final_one workerCount)) = EOF"
    by (simp add: final_one_fields(5))
  note t = producer_exit[OF reach_final_one]
  have p: "producer (final_one workerCount) = PDone None" using t l by blast
  then have "is_PDone (producer (final_one workerCount))" by simp
  then have "hits_closed (final_one workerCount)" using t by blast
  then show ?thesis using reach_final_one l p by blast
qed

text \<open>
  C6 as it was stated fails: on the source without records no function fails, and the
  context is cancelled all the same once \<^verbatim>\<open>g.Wait()\<close> has returned, as the comment of
  lines 66 and 67 says.
\<close>

theorem cancelled_without_failure:
  "reachable env_none workerCount joined_none \<and> cancelled joined_none
   \<and> failures joined_none = [] \<and> gerr joined_none = None
   \<and> producer joined_none = PDone None \<and> list_all clean_w (workers joined_none)"
  using reach_joined_none joined_none_fields by simp

text \<open>The theorem of C6 at the run in which ten workers have failed one after the other.\<close>

theorem cancellation_flag_witness:
  "reachable env_bad workerCount hung
   \<and> failures hung = UnmarshalTypeError ''array'' # replicate 9 (UnmarshalTypeError ''array'')
   \<and> cancelled hung \<and> gerr hung = Some (UnmarshalTypeError ''array'')"
proof -
  have f: "failures hung = UnmarshalTypeError ''array'' # replicate 9 (UnmarshalTypeError ''array'')"
    unfolding hung_def by code_simp
  note t = cancellation_flag[OF reach_hung]
  have "cancelled hung" using t f by simp
  moreover have "gerr hung = Some (UnmarshalTypeError ''array'')" using t f by simp
  ultimately show ?thesis using reach_hung f by blast
qed

text \<open>The theorem of C7 at the run on the source without records.\<close>

theorem results_closed_after_join_witness:
  "reachable env_none workerCount (final_none workerCount)
   \<and> ch_closed (final_none workerCount)
   \<and> is_PDone (producer (final_none workerCount))
   \<and> list_all is_WDone (workers (final_none workerCount))
   \<and> waiter (final_none workerCount) = JDone"
proof -
  from results_closed_after_join[OF reach_final_none] show ?thesis
    using reach_final_none final_none_fields(4) by blast
qed

text \<open>
  The theorem of C8 at the source with one page of one hit: the run with one worker and
  the run with ten.
\<close>

theorem worker_count_irrelevant_witness:
  "reachable env_one 1 (final_one 1) \<and> succeeded (final_one 1)
   \<and> reachable env_one workerCount (final_one workerCount) \<and> succeeded (final_one workerCount)
   \<and> set (map ID (records (data (final_one 1))))
       = set (map ID (records (data (final_one workerCount))))"
proof -
  from worker_count_irrelevant[OF reach_final_one_single final_one_single_fields(1)
      reach_final_one final_one_fields(1)]
  show ?thesis
    using reach_final_one_single final_one_single_fields(1) reach_final_one final_one_fields(1)
    by blast
qed

text \<open>
  C9 fails on the code.  The first page has eleven hits whose \<^verbatim>\<open>code\<close> is an array.
  Each of the ten workers takes one, fails to decode it and returns; the first failure
  cancels the context.  The producer is then in the send of line 85 with the eleventh
  hit: the send is not part of a \<^verbatim>\<open>select\<close> on \<^verbatim>\<open>ctx.Done()\<close>, and nobody is left to
  receive.  So the producer never returns, \<^verbatim>\<open>g.Wait()\<close> never returns, the \<^verbatim>\<open>panic\<close> of
  line 129 is never reached, and \<^verbatim>\<open>main\<close> waits in \<^verbatim>\<open>range ch\<close> for ever: no step is
  enabled.  By \<open>producer_blocked\<close> this is so in every state in which the producer
  still has a hit to send and all workers have returned.
\<close>

theorem producer_hangs_after_failure:
  "reachable env_bad workerCount hung \<and> stuck env_bad hung
   \<and> cancelled hung \<and> gerr hung = Some (UnmarshalTypeError ''array'')
   \<and> producer hung = PSend [hit_bad CHR ''a''] \<and> \<not> hits_closed hung
   \<and> list_all is_WDone (workers hung) \<and> waiter hung = JWait"
proof -
  have "exec env_bad ev hung = None" for ev
    using hung_fields(1) hung_fields(2) hung_fields(3) hung_fields(4) hung_fields(10)
    by (rule producer_blocked)
  then have "stuck env_bad hung"
    using hung_fields by (simp add: stuck_def)
  then show ?thesis using reach_hung hung_fields by simp
qed

end
